theory Spec2Isabelle
  imports Complex_Main "HOL-Library.Word"
begin

unbundle bit_operations_syntax

section \<open>Data model\<close>

text \<open>
  JavaScript numbers that carry geometry (coordinates, alpha, matrix entries) are modelled
  as \<open>real\<close>: the claims verified here depend on which branch the code takes and on
  which stored value it reads, never on rounding. Object references (nodes, textures,
  shader controllers) are natural numbers; a node reference indexes the node store.
\<close>

type_synonym node_ref = nat
type_synonym texture_ref = nat
type_synonym shader_ref = nat

datatype error = AssertionFailed string | NoWebGLContext | RangeError

text \<open>The enum \<open>CoreNodeRenderState\<close> with its numeric values.\<close>

datatype CoreNodeRenderState = Init | OutOfBounds | InBounds | InViewport



text \<open>The enum \<open>UpdateType\<close>: a bit mask, combined by the 32-bit operators of the source.\<close>

type_synonym UpdateType = "32 word"

definition Children :: UpdateType where "Children = 1"
definition ScaleRotate :: UpdateType where "ScaleRotate = 2"
definition Local :: UpdateType where "Local = 4"
definition Global :: UpdateType where "Global = 8"
definition Clipping :: UpdateType where "Clipping = 16"
definition CalculatedZIndex :: UpdateType where "CalculatedZIndex = 32"
definition ZIndexSortedChildren :: UpdateType where "ZIndexSortedChildren = 64"
definition PremultipliedColors :: UpdateType where "PremultipliedColors = 128"
definition WorldAlpha :: UpdateType where "WorldAlpha = 256"
definition RenderState :: UpdateType where "RenderState = 512"
definition IsRenderable :: UpdateType where "IsRenderable = 1024"
definition RenderTexture :: UpdateType where "RenderTexture = 2048"
definition ParentRenderTexture :: UpdateType where "ParentRenderTexture = 4096"
definition None_t :: UpdateType where "None_t = 0"
definition All :: UpdateType where "All = 8191"

lemmas UpdateType_defs =
  Children_def ScaleRotate_def Local_def Global_def Clipping_def CalculatedZIndex_def
  ZIndexSortedChildren_def PremultipliedColors_def WorldAlpha_def RenderState_def
  IsRenderable_def RenderTexture_def ParentRenderTexture_def None_t_def All_def

record Matrix3d =
  ta :: real
  tb :: real
  tx :: real
  tc :: real
  td :: real
  ty :: real

record RenderCoords =
  x1 :: real
  y1 :: real
  x2 :: real
  y2 :: real
  x3 :: real
  y3 :: real
  x4 :: real
  y4 :: real

text \<open>\<open>Bound\<close> has the fields \<open>x1, y1, x2, y2\<close> in the source; they are prefixed here
  because \<open>RenderCoords\<close> uses the same names.\<close>

record Bound =
  b_x1 :: real
  b_y1 :: real
  b_x2 :: real
  b_y2 :: real

record RectWithValid =
  r_x :: real
  r_y :: real
  r_width :: real
  r_height :: real
  valid :: bool

record TextureOptions =
  preload :: bool
  resizeMode :: "string option"

text \<open>The fields of \<open>CoreNodeProps\<close> that the modelled methods read or write.\<close>

record props =
  x :: real
  y :: real
  width :: real
  height :: real
  alpha :: real
  clipping :: bool
  color :: nat
  colorTop :: nat
  colorBottom :: nat
  colorLeft :: nat
  colorRight :: nat
  colorTl :: nat
  colorTr :: nat
  colorBr :: nat
  colorBl :: nat
  parent :: "node_ref option"
  zIndex :: real
  texture :: "texture_ref option"
  textureOptions :: TextureOptions
  shader :: shader_ref
  zIndexLocked :: real
  scaleX :: real
  scaleY :: real
  mountX :: real
  mountY :: real
  pivotX :: real
  pivotY :: real
  rotation :: real
  rtt :: bool

section \<open>Render eligibility: \<open>CoreNode.checkRenderProps\<close>\<close>

text \<open>The first argument is \<open>this.stage.defShaderCtr\<close>. The tests follow the source's
  order; \<open>!this.props.width\<close> is true of the number 0.\<close>

definition checkRenderProps :: "shader_ref \<Rightarrow> props \<Rightarrow> bool" where
  "checkRenderProps dflt p =
    (if texture p \<noteq> None then True
     else if width p = 0 \<or> height p = 0 then False
     else if shader p = dflt then True
     else if clipping p then True
     else if color p \<noteq> 0 then True
     else if colorTop p \<noteq> 0 then True
     else if colorBottom p \<noteq> 0 then True
     else if colorLeft p \<noteq> 0 then True
     else if colorRight p \<noteq> 0 then True
     else if colorTl p \<noteq> 0 then True
     else if colorTr p \<noteq> 0 then True
     else if colorBl p \<noteq> 0 then True
     else if colorBr p \<noteq> 0 then True
     else False)"

section \<open>The index buffer: \<open>createIndexBuffer\<close>\<close>

text \<open>\<open>~~v\<close> truncates towards zero and wraps to a signed 32-bit integer. The size is an
  integer here, so \<open>size / 80\<close> is the exact quotient.\<close>

definition toInt32 :: "int \<Rightarrow> int" where
  "toInt32 v = (v + 2 ^ 31) mod 2 ^ 32 - 2 ^ 31"

definition truncDiv :: "int \<Rightarrow> int \<Rightarrow> int" where
  "truncDiv a b = sgn a * sgn b * (\<bar>a\<bar> div \<bar>b\<bar>)"

text \<open>The \<open>for\<close> loop of the source, with its two counters: it runs while
  \<open>i < maxQuads\<close> and advances \<open>i\<close> by 6 and \<open>j\<close> by 4. A store into a
  \<open>Uint16Array\<close> keeps the low 16 bits, and a store beyond its length is ignored, as
  \<open>list_update\<close> does.\<close>

function fillIndices :: "nat \<Rightarrow> nat \<Rightarrow> nat \<Rightarrow> 16 word list \<Rightarrow> 16 word list" where
  "fillIndices i j maxQuads indices =
    (if i < maxQuads
     then fillIndices (i + 6) (j + 4) maxQuads
            (indices[i := of_nat j, i + 1 := of_nat (j + 1), i + 2 := of_nat (j + 2),
                     i + 3 := of_nat (j + 2), i + 4 := of_nat (j + 1),
                     i + 5 := of_nat (j + 3)])
     else indices)"
  by pat_completeness auto
termination
  by (relation "measure (\<lambda>(i, j, maxQuads, indices). maxQuads - i)") auto

declare fillIndices.simps [simp del]

text \<open>The function returns the array that the source hands to \<open>gl.bufferData\<close>.
  \<open>new Uint16Array\<close> of a negative length throws a \<open>RangeError\<close>.\<close>

definition createIndexBuffer :: "'gl option \<Rightarrow> int \<Rightarrow> error + 16 word list" where
  "createIndexBuffer gl sz =
    (if gl = None then Inl NoWebGLContext
     else let maxQuads = toInt32 (truncDiv sz 80) in
       if maxQuads * 6 < 0 then Inl RangeError
       else Inr (fillIndices 0 0 (nat maxQuads) (replicate (nat (maxQuads * 6)) 0)))"

text \<open>What the specification asks of quad \<open>q\<close>: the six indices at \<open>6q .. 6q+5\<close>.\<close>

definition quadIndices :: "nat \<Rightarrow> 16 word list" where
  "quadIndices q = map of_nat [4 * q, 4 * q + 1, 4 * q + 2, 4 * q + 2, 4 * q + 1, 4 * q + 3]"

definition quadAt :: "16 word list \<Rightarrow> nat \<Rightarrow> 16 word list" where
  "quadAt indices q = take 6 (drop (6 * q) indices)"

section \<open>Texture slots of a render op: \<open>WebGlCoreRenderOp.addTexture\<close>\<close>

record WebGlCoreRenderOp =
  textures :: "texture_ref list"
  maxTextures :: nat

text \<open>The constructor: \<open>supportsIndexedTextures\<close> of the shader and the value of
  \<open>gl.getParameter(gl.MAX_VERTEX_TEXTURE_IMAGE_UNITS)\<close>.\<close>

definition newRenderOp :: "bool \<Rightarrow> nat \<Rightarrow> WebGlCoreRenderOp" where
  "newRenderOp supportsIndexedTextures maxVertexTextureImageUnits =
    \<lparr> textures = [],
      maxTextures = (if supportsIndexedTextures then maxVertexTextureImageUnits else 1) \<rparr>"

text \<open>\<open>Array.prototype.findIndex\<close>: the first index whose element passes, or -1.\<close>

fun findIndex :: "('a \<Rightarrow> bool) \<Rightarrow> 'a list \<Rightarrow> int" where
  "findIndex P [] = -1"
| "findIndex P (t # ts) =
    (if P t then 0 else (let r = findIndex P ts in if r = -1 then -1 else r + 1))"

definition addTexture :: "WebGlCoreRenderOp \<Rightarrow> texture_ref \<Rightarrow> int \<times> WebGlCoreRenderOp" where
  "addTexture rop t =
    (let existingIdx = findIndex (\<lambda>u. u = t) (textures rop) in
     if existingIdx \<noteq> -1 then (existingIdx, rop)
     else let newIdx = length (textures rop) in
       if newIdx \<ge> maxTextures rop then (0xffffffff, rop)
       else (int newIdx, rop\<lparr>textures := textures rop @ [t]\<rparr>))"

text \<open>Successive calls of \<open>addTexture\<close>, collecting the returned slot indices.\<close>

fun addTextures :: "WebGlCoreRenderOp \<Rightarrow> texture_ref list \<Rightarrow> int list \<times> WebGlCoreRenderOp" where
  "addTextures rop [] = ([], rop)"
| "addTextures rop (t # ts) =
    (let (i, rop1) = addTexture rop t; (is, rop2) = addTextures rop1 ts in (i # is, rop2))"

section \<open>The scene graph: nodes in a store\<close>

text \<open>The fields of class \<open>CoreNode\<close> (in the later version of the class). \<open>children\<close>
  holds references, as the array of the source holds objects.\<close>

record CoreNode =
  children :: "node_ref list"
  props :: props
  updateType :: UpdateType
  globalTransform :: "Matrix3d option"
  scaleRotateTransform :: "Matrix3d option"
  localTransform :: "Matrix3d option"
  renderCoords :: "RenderCoords option"
  renderBound :: "Bound option"
  strictBound :: "Bound option"
  preloadBound :: "Bound option"
  clippingRect :: RectWithValid
  isRenderable :: bool
  renderState :: CoreNodeRenderState
  worldAlpha :: real
  premultipliedColorTl :: nat
  premultipliedColorTr :: nat
  premultipliedColorBl :: nat
  premultipliedColorBr :: nat
  calcZIndex :: real
  hasRTTupdates :: bool
  parentHasRenderTexture :: bool

text \<open>Calls that leave the modelled classes (event emitter, texture, renderer) are recorded
  in the order in which they are made.\<close>

datatype call =
  Emit node_ref string CoreNodeRenderState CoreNodeRenderState
| SetRenderableOwner texture_ref node_ref bool
| TextureOff texture_ref node_ref string
| QueueMicrotask node_ref texture_ref
| RenderToTexture node_ref
| RemoveRTTNode node_ref

record world =
  nodes :: "CoreNode list"
  calls :: "call list"

text \<open>What the methods read from the stage, and the helpers of \<open>lib/Matrix3d\<close>,
  \<open>lib/utils\<close> and \<open>utils\<close> whose code is not part of the sources at hand: they are
  parameters, so every result below holds for any implementation of them.
  \<open>boundsMargin\<close> is the vector \<open>[top, right, bottom, left]\<close>; \<open>intersectRect\<close> is given
  the two rectangles and returns the new content of its output rectangle (the second
  one, in the only call); \<open>Matrix3d_translate\<close> is the static \<open>Matrix3d.translate\<close> and
  \<open>translate\<close>, \<open>scale\<close>, \<open>multiply\<close> are the methods.\<close>

record env =
  defShaderCtr :: shader_ref
  root :: node_ref
  boundsMargin :: "real \<times> real \<times> real \<times> real"
  hasRenderer :: bool
  textureDimensions :: "texture_ref \<Rightarrow> (real \<times> real) option"
  loadRenderTexture :: "real \<Rightarrow> real \<Rightarrow> texture_ref"
  Matrix3d_rotate :: "real \<Rightarrow> Matrix3d"
  Matrix3d_translate :: "real \<Rightarrow> real \<Rightarrow> Matrix3d"
  translate :: "Matrix3d \<Rightarrow> real \<Rightarrow> real \<Rightarrow> Matrix3d"
  scale :: "Matrix3d \<Rightarrow> real \<Rightarrow> real \<Rightarrow> Matrix3d"
  multiply :: "Matrix3d \<Rightarrow> Matrix3d \<Rightarrow> Matrix3d"
  mergeColorAlphaPremultiplied :: "nat \<Rightarrow> real \<Rightarrow> bool \<Rightarrow> nat"
  boundInsideBound :: "Bound \<Rightarrow> Bound \<Rightarrow> bool"
  intersectRect :: "RectWithValid \<Rightarrow> RectWithValid \<Rightarrow> RectWithValid"

text \<open>A call either does not return (\<open>None\<close>), throws (\<open>Some (Inl e)\<close>) or returns
  a value (\<open>Some (Inr v)\<close>).\<close>

type_synonym 'a outcome = "(error + 'a) option"

definition ret :: "'a \<Rightarrow> 'a outcome" where
  "ret v = Some (Inr v)"

definition throw :: "error \<Rightarrow> 'a outcome" where
  "throw e = Some (Inl e)"

definition bindR :: "'a outcome \<Rightarrow> ('a \<Rightarrow> 'b outcome) \<Rightarrow> 'b outcome" where
  "bindR m k = (case m of None \<Rightarrow> None | Some (Inl e) \<Rightarrow> Some (Inl e) | Some (Inr v) \<Rightarrow> k v)"

lemma bindR_mono [partial_function_mono]:
  assumes "mono_option B" and "\<And>v. mono_option (\<lambda>f. C v f)"
  shows "mono_option (\<lambda>f. bindR (B f) (\<lambda>v. C v f))"
proof -
  have e: "\<And>f. bindR (B f) (\<lambda>v. C v f) =
      Option.bind (B f) (\<lambda>r. case r of Inl e \<Rightarrow> Some (Inl e) | Inr v \<Rightarrow> C v f)"
    by (simp add: bindR_def split: option.split sum.split)
  show ?thesis
    unfolding e
  proof (rule bind_mono [OF assms(1)])
    fix r :: "error + 'c"
    show "mono_option (\<lambda>f. case r of Inl e \<Rightarrow> Some (Inl e) | Inr v \<Rightarrow> C v f)"
      by (cases r) (simp_all add: option.const_mono assms(2))
  qed
qed

text \<open>Modelled from the spec: \<open>assertTruthy\<close> (module \<open>utils\<close>, not part of the sources
  at hand) is the fatal assertion of the specification: it throws when its condition is
  falsy, and the operation is aborted.\<close>

definition assertTruthy :: "bool \<Rightarrow> string \<Rightarrow> unit outcome" where
  "assertTruthy c msg = (if c then ret () else throw (AssertionFailed msg))"

definition node :: "world \<Rightarrow> node_ref \<Rightarrow> CoreNode" where
  "node w n = nodes w ! n"

definition upd :: "world \<Rightarrow> node_ref \<Rightarrow> (CoreNode \<Rightarrow> CoreNode) \<Rightarrow> world" where
  "upd w n f = w\<lparr>nodes := (nodes w)[n := f (nodes w ! n)]\<rparr>"

definition addCall :: "world \<Rightarrow> call \<Rightarrow> world" where
  "addCall w c = w\<lparr>calls := calls w @ [c]\<rparr>"

text \<open>\<open>children.forEach\<close>: the callback runs on each child in turn, on the state the
  previous one left.\<close>

fun forEach :: "'a list \<Rightarrow> ('a \<Rightarrow> world \<Rightarrow> world outcome) \<Rightarrow> world \<Rightarrow> world outcome" where
  "forEach [] f w = ret w"
| "forEach (c # cs) f w = bindR (f c w) (forEach cs f)"

lemma forEach_mono [partial_function_mono]:
  assumes "\<And>c w. mono_option (\<lambda>f. B f c w)"
  shows "mono_option (\<lambda>f. forEach cs (B f) w)"
proof (induction cs arbitrary: w)
  case Nil
  show ?case by (simp add: ret_def option.const_mono)
next
  case (Cons c cs)
  show ?case
    unfolding forEach.simps
    by (rule bindR_mono [OF assms Cons.IH])
qed

subsection \<open>Dirty flags: \<open>setRTTUpdates\<close> and \<open>setUpdateType\<close>\<close>

text \<open>\<open>setRTTUpdates\<close> follows the parent references without a stopping test; on a
  cyclic chain it does not return.\<close>

partial_function (option) setRTTUpdates :: "world \<Rightarrow> node_ref \<Rightarrow> UpdateType \<Rightarrow> world outcome" where
  "setRTTUpdates w n t =
    (let w1 = upd w n (\<lambda>nd. nd\<lparr>hasRTTupdates := True\<rparr>) in
     case parent (props (node w1 n)) of
       None \<Rightarrow> ret w1
     | Some p \<Rightarrow> setRTTUpdates w1 p t)"

partial_function (option) setUpdateType :: "world \<Rightarrow> node_ref \<Rightarrow> UpdateType \<Rightarrow> world outcome" where
  "setUpdateType w n t =
    (let w1 = upd w n (\<lambda>nd. nd\<lparr>updateType := updateType nd OR t\<rparr>) in
     bindR (case parent (props (node w1 n)) of
              None \<Rightarrow> ret w1
            | Some p \<Rightarrow>
                if updateType (node w1 p) AND Children = 0
                then setUpdateType w1 p Children
                else ret w1)
       (\<lambda>w2. if parentHasRenderTexture (node w2 n) then setRTTUpdates w2 n t else ret w2))"

text \<open>A list of successive ancestors of \<open>n\<close>: its parent, the parent's parent, and so on.\<close>

fun isAncestorChain :: "world \<Rightarrow> node_ref \<Rightarrow> node_ref list \<Rightarrow> bool" where
  "isAncestorChain w n [] = True"
| "isAncestorChain w n (a # as) =
    (parent (props (node w n)) = Some a \<and> isAncestorChain w a as)"

subsection \<open>Transforms, render coordinates and bounds\<close>

definition updateScaleRotateTransform :: "env \<Rightarrow> CoreNode \<Rightarrow> CoreNode" where
  "updateScaleRotateTransform E nd =
    nd\<lparr>scaleRotateTransform :=
         Some (scale E (Matrix3d_rotate E (rotation (props nd)))
                 (scaleX (props nd)) (scaleY (props nd)))\<rparr>"



text \<open>Modelled from the spec: \<open>RenderCoords.translate\<close>, \<open>createBound\<close>, \<open>copyRect\<close>,
  \<open>Matrix3d.copy\<close> and \<open>Matrix3d.identity\<close> (modules under \<open>lib\<close>, not part of the
  sources at hand) build or copy plain values: the four transformed corners in the order
  given, the bound with the two corners given, the rectangle copied into the output
  (whose \<open>valid\<close> the caller sets), the matrix copied, the identity matrix.\<close>

definition RenderCoords_translate ::
  "real \<Rightarrow> real \<Rightarrow> real \<Rightarrow> real \<Rightarrow> real \<Rightarrow> real \<Rightarrow> real \<Rightarrow> real \<Rightarrow> RenderCoords" where
  "RenderCoords_translate a1 b1 a2 b2 a3 b3 a4 b4 =
    \<lparr> x1 = a1, y1 = b1, x2 = a2, y2 = b2, x3 = a3, y3 = b3, x4 = a4, y4 = b4 \<rparr>"

definition createBound :: "real \<Rightarrow> real \<Rightarrow> real \<Rightarrow> real \<Rightarrow> Bound" where
  "createBound a1 b1 a2 b2 = \<lparr> b_x1 = a1, b_y1 = b1, b_x2 = a2, b_y2 = b2 \<rparr>"




definition calculateRenderCoords :: "CoreNode \<Rightarrow> error + CoreNode" where
  "calculateRenderCoords nd =
    (case globalTransform nd of
       None \<Rightarrow> Inl (AssertionFailed [])
     | Some t \<Rightarrow>
        let wd = width (props nd); ht = height (props nd) in
        if tb t = 0 \<and> tc t = 0 then
          let minX = tx t; maxX = tx t + wd * ta t;
              minY = ty t; maxY = ty t + ht * td t
          in Inr (nd\<lparr>renderCoords :=
                   Some (RenderCoords_translate minX minY maxX minY maxX maxY minX maxY)\<rparr>)
        else
          Inr (nd\<lparr>renderCoords :=
                Some (RenderCoords_translate
                        (tx t) (ty t)
                        (tx t + wd * ta t) (ty t + wd * tc t)
                        (tx t + wd * ta t + ht * tb t) (ty t + wd * tc t + ht * td t)
                        (tx t + ht * tb t) (ty t + ht * td t))\<rparr>))"

definition updateBoundingRect :: "CoreNode \<Rightarrow> error + CoreNode" where
  "updateBoundingRect nd =
    (case globalTransform nd of
       None \<Rightarrow> Inl (AssertionFailed [])
     | Some t \<Rightarrow>
        (case renderCoords nd of
           None \<Rightarrow> Inl (AssertionFailed [])
         | Some rc \<Rightarrow>
            if tb t = 0 \<or> tc t = 0 then
              Inr (nd\<lparr>renderBound := Some (createBound (x1 rc) (y1 rc) (x3 rc) (y3 rc))\<rparr>)
            else
              Inr (nd\<lparr>renderBound :=
                    Some (createBound
                            (min (min (min (x1 rc) (x2 rc)) (x3 rc)) (x4 rc))
                            (min (min (min (y1 rc) (y2 rc)) (y3 rc)) (y4 rc))
                            (max (max (max (x1 rc) (x2 rc)) (x3 rc)) (x4 rc))
                            (max (max (max (y1 rc) (y2 rc)) (y3 rc)) (y4 rc)))\<rparr>)))"



subsection \<open>Render state and renderability\<close>







subsection \<open>The update pass: \<open>CoreNode.update\<close>\<close>


















subsection \<open>The setters \<open>parent\<close>, \<open>texture\<close> and \<open>rtt\<close>\<close>

text \<open>\<open>Array.prototype.indexOf\<close> and \<open>splice(index, 1)\<close>.\<close>

definition indexOf :: "'a list \<Rightarrow> 'a \<Rightarrow> int" where
  "indexOf xs v = findIndex (\<lambda>u. u = v) xs"

definition splice1 :: "'a list \<Rightarrow> nat \<Rightarrow> 'a list" where
  "splice1 xs i = take i xs @ drop (Suc i) xs"

definition notFoundMessage :: string where
  "notFoundMessage = ''CoreNode.parent: Node not found in old parent's children!''"

definition set_parent :: "env \<Rightarrow> world \<Rightarrow> node_ref \<Rightarrow> node_ref option \<Rightarrow> world outcome" where
  "set_parent E w n newParent =
    (let oldParent = parent (props (node w n)) in
     if oldParent = newParent then ret w
     else
       let w1 = upd w n (\<lambda>nd. nd\<lparr>props := (props nd)\<lparr>parent := newParent\<rparr>\<rparr>) in
       bindR (case oldParent of
                None \<Rightarrow> ret w1
              | Some op \<Rightarrow>
                 let index = indexOf (children (node w1 op)) n in
                 bindR (assertTruthy (index \<noteq> -1) notFoundMessage) (\<lambda>_.
                 setUpdateType
                   (upd w1 op (\<lambda>nd. nd\<lparr>children := splice1 (children nd) (nat index)\<rparr>))
                   op (Children OR ZIndexSortedChildren))) (\<lambda>w2.
       bindR (case newParent of
                None \<Rightarrow> ret w2
              | Some np \<Rightarrow>
                 bindR (setUpdateType
                          (upd w2 np (\<lambda>nd. nd\<lparr>children := children nd @ [n]\<rparr>)) n All) (\<lambda>w3.
                 bindR (setUpdateType w3 np (Children OR ZIndexSortedChildren)) (\<lambda>w4.
                 if rtt (props (node w4 np)) \<or> parentHasRenderTexture (node w4 np)
                 then setRTTUpdates w4 n All
                 else ret w4))) (\<lambda>w5.
       ret (upd w5 n (updateScaleRotateTransform E)))))"

text \<open>The setter of the earlier version of the class (\<open>src/core/CoreNode.ts\<close>): no early
  return and no dirty flags. Of the fields of that class it touches \<open>props.parent\<close> and
  \<open>children\<close> only, which are the same in both versions.\<close>

definition set_parent_v1 :: "world \<Rightarrow> node_ref \<Rightarrow> node_ref option \<Rightarrow> world outcome" where
  "set_parent_v1 w n newParent =
    (let oldParent = parent (props (node w n));
         w1 = upd w n (\<lambda>nd. nd\<lparr>props := (props nd)\<lparr>parent := newParent\<rparr>\<rparr>) in
     bindR (case oldParent of
              None \<Rightarrow> ret w1
            | Some op \<Rightarrow>
               let index = indexOf (children (node w1 op)) n in
               bindR (assertTruthy (index \<noteq> -1) notFoundMessage) (\<lambda>_.
               ret (upd w1 op (\<lambda>nd. nd\<lparr>children := splice1 (children nd) (nat index)\<rparr>)))) (\<lambda>w2.
     case newParent of
       None \<Rightarrow> ret w2
     | Some np \<Rightarrow> ret (upd w2 np (\<lambda>nd. nd\<lparr>children := children nd @ [n]\<rparr>))))"

definition unloadTexture :: "world \<Rightarrow> node_ref \<Rightarrow> world" where
  "unloadTexture w n =
    (case texture (props (node w n)) of
       None \<Rightarrow> w
     | Some tex \<Rightarrow>
        addCall (addCall (addCall (addCall w (TextureOff tex n ''loaded''))
          (TextureOff tex n ''failed'')) (TextureOff tex n ''freed''))
          (SetRenderableOwner tex n False))"

text \<open>\<open>loadTexture\<close> defers its body with \<open>queueMicrotask\<close>; the deferred body is recorded
  as a call and not run.\<close>

definition loadTexture :: "world \<Rightarrow> node_ref \<Rightarrow> world outcome" where
  "loadTexture w n =
    (case texture (props (node w n)) of
       None \<Rightarrow> throw (AssertionFailed [])
     | Some tex \<Rightarrow> ret (addCall w (QueueMicrotask n tex)))"

definition set_texture :: "world \<Rightarrow> node_ref \<Rightarrow> texture_ref option \<Rightarrow> world outcome" where
  "set_texture w n v =
    (if texture (props (node w n)) = v then ret w
     else
       let w1 = (case texture (props (node w n)) of
                   None \<Rightarrow> w
                 | Some oldTexture \<Rightarrow>
                     unloadTexture (addCall w (SetRenderableOwner oldTexture n False)) n);
           w2 = upd w1 n (\<lambda>nd. nd\<lparr>props := (props nd)\<lparr>texture := v\<rparr>\<rparr>)
       in bindR (case v of
                   None \<Rightarrow> ret w2
                 | Some tex \<Rightarrow>
                     loadTexture
                       (addCall w2 (SetRenderableOwner tex n (isRenderable (node w2 n)))) n) (\<lambda>w3.
          setUpdateType w3 n IsRenderable))"

definition set_rtt :: "env \<Rightarrow> world \<Rightarrow> node_ref \<Rightarrow> bool \<Rightarrow> world outcome" where
  "set_rtt E w n v =
    (let w1 = (if rtt (props (node w n))
               then upd w n (\<lambda>nd. nd\<lparr>props := (props nd)\<lparr>rtt := v\<rparr>\<rparr>)
               else w)
     in if rtt (props (node w n)) \<and> v = False \<and> texture (props (node w1 n)) \<noteq> None
        then
          bindR (setUpdateType (unloadTexture w1 n) n All) (\<lambda>w2.
          bindR (forEach (children (node w2 n))
                   (\<lambda>child wa. ret (upd wa child (\<lambda>nd. nd\<lparr>parentHasRenderTexture := False\<rparr>)))
                   w2) (\<lambda>w3.
          ret (if hasRenderer E then addCall w3 (RemoveRTTNode n) else w3)))
        else if v = False then ret w1
        else
          bindR (set_texture w1 n
                   (Some (loadRenderTexture E (width (props (node w1 n)))
                            (height (props (node w1 n)))))) (\<lambda>w2.
          let w3 = upd w2 n (\<lambda>nd. nd\<lparr>props := (props nd)
                      \<lparr>textureOptions := (textureOptions (props nd))\<lparr>preload := True\<rparr>,
                       rtt := True\<rparr>, hasRTTupdates := True\<rparr>)
          in bindR (setUpdateType w3 n All) (\<lambda>w4.
             bindR (forEach (children (node w4 n)) (\<lambda>child wa. setUpdateType wa child All) w4)
               (\<lambda>w5.
             ret (if hasRenderer E then addCall w5 (RenderToTexture n) else w5)))))"

section \<open>Definitions used to state the properties\<close>

definition anyColor :: "props \<Rightarrow> bool" where
  "anyColor p =
    (color p \<noteq> 0 \<or> colorTop p \<noteq> 0 \<or> colorBottom p \<noteq> 0 \<or> colorLeft p \<noteq> 0 \<or>
     colorRight p \<noteq> 0 \<or> colorTl p \<noteq> 0 \<or> colorTr p \<noteq> 0 \<or> colorBl p \<noteq> 0 \<or>
     colorBr p \<noteq> 0)"

text \<open>Render eligibility in the words of the specification: a texture, or a nonzero size
  together with a non-default shader, clipping or a nonzero colour.\<close>

definition spec_checkRenderProps :: "shader_ref \<Rightarrow> props \<Rightarrow> bool" where
  "spec_checkRenderProps dflt p =
    (texture p \<noteq> None \<or>
     (width p \<noteq> 0 \<and> height p \<noteq> 0 \<and>
      (shader p \<noteq> dflt \<or> clipping p \<or> anyColor p)))"

text \<open>A 100 by 100 node without texture, clipping or colour, on shader controller 0.\<close>

definition blankProps :: props where
  "blankProps =
    \<lparr> x = 0, y = 0, width = 100, height = 100, alpha = 1, clipping = False,
      color = 0, colorTop = 0, colorBottom = 0, colorLeft = 0, colorRight = 0, colorTl = 0,
      colorTr = 0, colorBr = 0, colorBl = 0, parent = None, zIndex = 0, texture = None,
      textureOptions = \<lparr> preload = False, resizeMode = None \<rparr>, shader = 0,
      zIndexLocked = 0, scaleX = 1, scaleY = 1, mountX = 0, mountY = 0, pivotX = 0.5,
      pivotY = 0.5, rotation = 0, rtt = False \<rparr>"

text \<open>Example nodes and stores: a node with every cached field in its initial state, and
  a chain of four nodes (0 is the root, 3 the leaf) with the given pending masks.\<close>

definition blankNode :: CoreNode where
  "blankNode =
    \<lparr> children = [], props = blankProps, updateType = 0, globalTransform = None,
      scaleRotateTransform = None, localTransform = None, renderCoords = None,
      renderBound = None, strictBound = None, preloadBound = None,
      clippingRect = \<lparr> r_x = 0, r_y = 0, r_width = 0, r_height = 0, valid = False \<rparr>,
      isRenderable = False, renderState = Init, worldAlpha = 1,
      premultipliedColorTl = 0, premultipliedColorTr = 0, premultipliedColorBl = 0,
      premultipliedColorBr = 0, calcZIndex = 0, hasRTTupdates = False,
      parentHasRenderTexture = False \<rparr>"

definition treeNode :: "node_ref option \<Rightarrow> node_ref list \<Rightarrow> UpdateType \<Rightarrow> CoreNode" where
  "treeNode par cs ut =
    blankNode\<lparr> children := cs, props := blankProps\<lparr>parent := par\<rparr>, updateType := ut \<rparr>"

definition chainWorld :: "UpdateType \<Rightarrow> UpdateType \<Rightarrow> UpdateType \<Rightarrow> UpdateType \<Rightarrow> world" where
  "chainWorld u0 u1 u2 u3 =
    \<lparr> nodes = [treeNode None [1] u0, treeNode (Some 0) [2] u1, treeNode (Some 1) [3] u2,
               treeNode (Some 2) [] u3],
      calls = [] \<rparr>"

text \<open>The parent reference and the children list of every node, and the invariant of the
  specification: a node's children list holds exactly the nodes whose parent reference
  points to it. "Exactly" is read with multiplicity (no node is listed twice), and every
  reference is live.\<close>

definition links :: "world \<Rightarrow> (node_ref option \<times> node_ref list) list" where
  "links w = map (\<lambda>nd. (parent (props nd), children nd)) (nodes w)"

definition linksConsistent :: "(node_ref option \<times> node_ref list) list \<Rightarrow> bool" where
  "linksConsistent L \<longleftrightarrow>
    (\<forall>p \<in> set [0 ..< length L].
       distinct (snd (L ! p)) \<and>
       (\<forall>c \<in> set (snd (L ! p)). c < length L \<and> fst (L ! c) = Some p)) \<and>
    (\<forall>c \<in> set [0 ..< length L].
       case fst (L ! c) of None \<Rightarrow> True | Some p \<Rightarrow> p < length L \<and> c \<in> set (snd (L ! p)))"

definition treeConsistent :: "world \<Rightarrow> bool" where
  "treeConsistent w = linksConsistent (links w)"

text \<open>Reparenting on the links alone: the node gets the new parent reference, leaves the
  children list of its old parent and is appended to the one of its new parent.\<close>

definition relink :: "(node_ref option \<times> node_ref list) list \<Rightarrow> node_ref \<Rightarrow> node_ref option \<Rightarrow> (node_ref option \<times> node_ref list) list" where
  "relink L n newParent =
    (let L1 = L[n := (newParent, snd (L ! n))];
         L2 = (case fst (L ! n) of None \<Rightarrow> L1
               | Some op \<Rightarrow> L1[op := (fst (L1 ! op), remove1 n (snd (L1 ! op)))])
     in case newParent of None \<Rightarrow> L2
        | Some np \<Rightarrow> L2[np := (fst (L2 ! np), snd (L2 ! np) @ [n])])"

text \<open>\<open>w'\<close> is \<open>w\<close> with node \<open>n\<close> moved below \<open>newParent\<close>: no other parent
  reference changes, \<open>n\<close> is gone from every list that held it and is the last child of
  the new parent.\<close>

definition reparented :: "world \<Rightarrow> world \<Rightarrow> node_ref \<Rightarrow> node_ref option \<Rightarrow> bool" where
  "reparented w w' n newParent \<longleftrightarrow>
    length (nodes w') = length (nodes w) \<and>
    (\<forall>m \<in> set [0 ..< length (nodes w)].
       parent (props (node w' m)) = (if m = n then newParent else parent (props (node w m))) \<and>
       children (node w' m) =
         remove1 n (children (node w m)) @ (if newParent = Some m then [n] else []))"

text \<open>An example environment, used in examples only: the usual affine operations for the
  matrix helpers, containment of bounds, and stand-ins for the rest.\<close>

definition stdEnv :: env where
  "stdEnv =
    \<lparr> defShaderCtr = 0, root = 0, boundsMargin = (0, 0, 0, 0), hasRenderer = True,
      textureDimensions = (\<lambda>t. None),
      loadRenderTexture = (\<lambda>wd ht. 7),
      Matrix3d_rotate = (\<lambda>r. \<lparr> ta = cos r, tb = - sin r, tx = 0, tc = sin r, td = cos r, ty = 0 \<rparr>),
      Matrix3d_translate = (\<lambda>dx dy. \<lparr> ta = 1, tb = 0, tx = dx, tc = 0, td = 1, ty = dy \<rparr>),
      translate = (\<lambda>m dx dy. m\<lparr> tx := ta m * dx + tb m * dy + tx m,
                                 ty := tc m * dx + td m * dy + ty m \<rparr>),
      scale = (\<lambda>m sx sy. m\<lparr> ta := ta m * sx, tb := tb m * sy, tc := tc m * sx, td := td m * sy \<rparr>),
      multiply = (\<lambda>a b. \<lparr> ta = ta a * ta b + tb a * tc b, tb = ta a * tb b + tb a * td b,
                           tx = ta a * tx b + tb a * ty b + tx a,
                           tc = tc a * ta b + td a * tc b, td = tc a * tb b + td a * td b,
                           ty = tc a * tx b + td a * ty b + ty a \<rparr>),
      mergeColorAlphaPremultiplied = (\<lambda>c a p. c),
      boundInsideBound = (\<lambda>a b. b_x1 b \<le> b_x1 a \<and> b_y1 b \<le> b_y1 a \<and> b_x2 a \<le> b_x2 b \<and> b_y2 a \<le> b_y2 b),
      intersectRect = (\<lambda>a b. b) \<rparr>"

text \<open>The chain after \<open>node 3\<close> has been moved below the root by the later setter and
  by the earlier one, and a store that breaks the invariant: node 3 points to node 2, which
  does not list it.\<close>

definition reparentedChain :: world where
  "reparentedChain =
    \<lparr> nodes = [treeNode None [1, 3] 65, treeNode (Some 0) [2] 1, treeNode (Some 1) [] 65,
               (treeNode (Some 0) [] 8191)
                 \<lparr>scaleRotateTransform := Some \<lparr> ta = 1, tb = 0, tx = 0, tc = 0, td = 1, ty = 0 \<rparr>\<rparr>],
      calls = [] \<rparr>"

definition reparentedChain_v1 :: world where
  "reparentedChain_v1 =
    \<lparr> nodes = [treeNode None [1, 3] 0, treeNode (Some 0) [2] 0, treeNode (Some 1) [] 0,
               treeNode (Some 0) [] 0],
      calls = [] \<rparr>"

definition orphanWorld :: world where
  "orphanWorld =
    \<lparr> nodes = [treeNode None [1] 0, treeNode (Some 0) [2] 0, treeNode (Some 1) [] 0,
               treeNode (Some 2) [] 0],
      calls = [] \<rparr>"

text \<open>A render-to-texture node with a child and a grandchild that carry the flag
  \<open>parentHasRenderTexture\<close>, and the store expected after \<open>rtt = false\<close> on node 0.\<close>

definition rttWorld :: world where
  "rttWorld =
    \<lparr> nodes = [blankNode\<lparr> children := [1],
                         props := blankProps\<lparr>rtt := True, texture := Some 7\<rparr> \<rparr>,
               blankNode\<lparr> children := [2], props := blankProps\<lparr>parent := Some 0\<rparr>,
                         parentHasRenderTexture := True \<rparr>,
               blankNode\<lparr> props := blankProps\<lparr>parent := Some 1\<rparr>,
                         parentHasRenderTexture := True \<rparr>],
      calls = [] \<rparr>"

definition rttWorldOff :: world where
  "rttWorldOff =
    \<lparr> nodes = [blankNode\<lparr> children := [1],
                         props := blankProps\<lparr>rtt := False, texture := Some 7\<rparr>,
                         updateType := 8191 \<rparr>,
               blankNode\<lparr> children := [2], props := blankProps\<lparr>parent := Some 0\<rparr>,
                         parentHasRenderTexture := False \<rparr>,
               blankNode\<lparr> props := blankProps\<lparr>parent := Some 1\<rparr>,
                         parentHasRenderTexture := True \<rparr>],
      calls = [TextureOff 7 0 ''loaded'', TextureOff 7 0 ''failed'', TextureOff 7 0 ''freed'',
               SetRenderableOwner 7 0 False, RemoveRTTNode 0] \<rparr>"

text \<open>A 100 by 100 node under the global transform \<open>(x, y) \<mapsto> (x, y - x)\<close>, which has
  \<open>tb = 0\<close> and \<open>tc \<noteq> 0\<close>; the bound by minimum and maximum over the four corners; and the
  render coordinates and render bound that the two methods leave on a node.\<close>

definition shearedNode :: CoreNode where
  "shearedNode =
    blankNode\<lparr> globalTransform := Some \<lparr> ta = 1, tb = 0, tx = 0, tc = - 1, td = 1, ty = 0 \<rparr> \<rparr>"

definition minMaxBound :: "RenderCoords \<Rightarrow> Bound" where
  "minMaxBound rc =
    createBound (Min {x1 rc, x2 rc, x3 rc, x4 rc}) (Min {y1 rc, y2 rc, y3 rc, y4 rc})
                (Max {x1 rc, x2 rc, x3 rc, x4 rc}) (Max {y1 rc, y2 rc, y3 rc, y4 rc})"

definition renderBoundOf :: "CoreNode \<Rightarrow> error + (RenderCoords option \<times> Bound option)" where
  "renderBoundOf nd =
    (case calculateRenderCoords nd of
       Inl e \<Rightarrow> Inl e
     | Inr nd1 \<Rightarrow>
        (case updateBoundingRect nd1 of
           Inl e \<Rightarrow> Inl e
         | Inr nd2 \<Rightarrow> Inr (renderCoords nd2, renderBound nd2)))"

text \<open>The parent references are well-founded: every parent reference is live and leads to
  a node of smaller rank, so that no node is its own ancestor and every walk along the
  parent references ends at a node without parent.\<close>

definition parentRanked :: "(node_ref \<Rightarrow> nat) \<Rightarrow> world \<Rightarrow> bool" where
  "parentRanked rk w \<longleftrightarrow>
    (\<forall>m < length (nodes w). \<forall>p. parent (props (node w m)) = Some p \<longrightarrow>
        p < length (nodes w) \<and> rk p < rk m)"

text \<open>The store after the assignment \<open>this.props.parent = newParent\<close> alone.\<close>

definition withParent :: "world \<Rightarrow> node_ref \<Rightarrow> node_ref option \<Rightarrow> world" where
  "withParent w n newParent = upd w n (\<lambda>nd. nd\<lparr>props := (props nd)\<lparr>parent := newParent\<rparr>\<rparr>)"

text \<open>Frame conditions for the update pass. \<open>eqExcept S f w w'\<close>: the two stores have
  the same number of nodes and, outside the set \<open>S\<close>, every node reads the same under
  \<open>f\<close>. A reading is \<open>flaginv\<close> when it ignores the two dirty flags, \<open>structural\<close> when
  it depends on the props and the children list only.\<close>

definition eqExcept :: "node_ref set \<Rightarrow> (CoreNode \<Rightarrow> 'a) \<Rightarrow> world \<Rightarrow> world \<Rightarrow> bool" where
  "eqExcept S f w w' \<longleftrightarrow>
    length (nodes w') = length (nodes w) \<and>
    (\<forall>k < length (nodes w). k \<notin> S \<longrightarrow> f (node w' k) = f (node w k))"

definition flaginv :: "(CoreNode \<Rightarrow> 'a) \<Rightarrow> bool" where
  "flaginv f \<longleftrightarrow>
    (\<forall>nd u. f (nd\<lparr>updateType := u\<rparr>) = f nd) \<and> (\<forall>nd b. f (nd\<lparr>hasRTTupdates := b\<rparr>) = f nd)"








text \<open>Every pending mask of \<open>w\<close> is contained in the mask of the same node in \<open>w'\<close>.\<close>

definition maskLe :: "world \<Rightarrow> world \<Rightarrow> bool" where
  "maskLe w w' \<longleftrightarrow>
    length (nodes w') = length (nodes w) \<and>
    (\<forall>m < length (nodes w).
        updateType (node w m) OR updateType (node w' m) = updateType (node w' m))"










section \<open>Properties of \<open>checkRenderProps\<close>\<close>

text \<open>
  What the code computes. \<open>checkRenderProps\<close> returns true if and only if the node has a
  texture, or it has nonzero width and nonzero height and at least one of: its shader is
  the stage's default shader controller, it clips, or one of its nine colour channels is
  nonzero. In particular a node of zero width or zero height without a texture is never
  eligible (second conjunct).
\<close>

lemma checkRenderProps_iff:
  "(checkRenderProps d p \<longleftrightarrow>
      (texture p \<noteq> None \<or>
       (width p \<noteq> 0 \<and> height p \<noteq> 0 \<and> (shader p = d \<or> clipping p \<or> anyColor p)))) \<and>
   ((width p = 0 \<or> height p = 0) \<and> texture p = None \<longrightarrow> \<not> checkRenderProps d p)"
  by (simp add: checkRenderProps_def anyColor_def)

lemma checkRenderProps_iff_example:
  "checkRenderProps 0 (blankProps\<lparr>shader := 1, colorTl := 255\<rparr>) \<and>
   \<not> checkRenderProps 0 (blankProps\<lparr>width := 0, clipping := True\<rparr>)"
  using checkRenderProps_iff [of 0 "blankProps\<lparr>shader := 1, colorTl := 255\<rparr>"]
    checkRenderProps_iff [of 0 "blankProps\<lparr>width := 0, clipping := True\<rparr>"]
  by (simp add: blankProps_def anyColor_def)

text \<open>
  C1 fails in the code. The shader test of \<open>checkRenderProps\<close> is
  \<open>this.props.shader === this.stage.defShaderCtr\<close>: it accepts the default shader where
  the claim accepts a non-default one. \<open>blankProps\<close> is a 100 by 100 node on the default
  shader controller 0 with no texture, no clipping and all nine colours zero: the code
  returns true, the claim asks false. The same node on a shader of its own (controller 1)
  is not eligible in the code, and is eligible in the claim. Every node is built on the
  default shader, so for such nodes the clipping test and the nine colour tests are never
  reached.
\<close>

theorem checkRenderProps_default_shader:
  "checkRenderProps 0 blankProps \<and> \<not> checkRenderProps 0 (blankProps\<lparr>shader := 1\<rparr>)"
  by (simp add: checkRenderProps_def blankProps_def)

text \<open>The two nodes against the claim's words.\<close>

lemma checkRenderProps_default_shader_counterexample:
  "checkRenderProps 0 blankProps \<and> \<not> spec_checkRenderProps 0 blankProps"
  by (simp add: checkRenderProps_def spec_checkRenderProps_def blankProps_def anyColor_def)

lemma checkRenderProps_custom_shader:
  "\<not> checkRenderProps 0 (blankProps\<lparr>shader := 1\<rparr>) \<and>
   spec_checkRenderProps 0 (blankProps\<lparr>shader := 1\<rparr>)"
  by (simp add: checkRenderProps_def spec_checkRenderProps_def blankProps_def anyColor_def)

section \<open>Properties of \<open>createIndexBuffer\<close>\<close>

text \<open>
  C6 at buffer size 160: \<open>maxQuads\<close> is 2 and the buffer holds 12 indices, but the loop
  runs while \<open>i < maxQuads\<close> with \<open>i\<close> advancing by 6, so only quad 0 is written. The
  six indices of quad 1 stay 0, where the claim asks for (4, 5, 6, 6, 5, 7).
\<close>

theorem createIndexBuffer_160:
  "createIndexBuffer (Some gl) 160 = Inr [0, 1, 2, 2, 1, 3, 0, 0, 0, 0, 0, 0] \<and>
   quadAt [0, 1, 2, 2, 1, 3, 0, 0, 0, 0, 0, 0] 1 = [0, 0, 0, 0, 0, 0] \<and>
   quadIndices 1 = [4, 5, 6, 6, 5, 7]"
  by (simp add: createIndexBuffer_def toInt32_def truncDiv_def fillIndices.simps
      numeral_eq_Suc quadAt_def quadIndices_def)

section \<open>Properties of \<open>addTexture\<close>\<close>

lemma findIndex_notin: "t \<notin> set ts \<Longrightarrow> findIndex (\<lambda>u. u = t) ts = -1"
  by (induction ts) auto

lemma findIndex_nth:
  "distinct ts \<Longrightarrow> i < length ts \<Longrightarrow> findIndex (\<lambda>u. u = ts ! i) ts = int i"
proof (induction ts arbitrary: i)
  case Nil
  then show ?case by simp
next
  case (Cons a ts)
  show ?case
  proof (cases i)
    case 0
    then show ?thesis by simp
  next
    case (Suc k)
    with Cons.prems have k: "k < length ts" and d: "distinct ts" and na: "ts ! k \<noteq> a"
      by auto
    from Cons.IH [OF d k] have "findIndex (\<lambda>u. u = ts ! k) ts = int k" .
    with Suc na show ?thesis by (simp add: Let_def)
  qed
qed

lemma addTexture_new:
  "t \<notin> set (textures rop) \<Longrightarrow> length (textures rop) < maxTextures rop \<Longrightarrow>
   addTexture rop t = (int (length (textures rop)), rop\<lparr>textures := textures rop @ [t]\<rparr>)"
  by (simp add: addTexture_def findIndex_notin Let_def)

lemma addTexture_full:
  "t \<notin> set (textures rop) \<Longrightarrow> maxTextures rop \<le> length (textures rop) \<Longrightarrow>
   addTexture rop t = (0xffffffff, rop)"
  by (simp add: addTexture_def findIndex_notin Let_def)

lemma addTexture_present:
  "distinct (textures rop) \<Longrightarrow> i < length (textures rop) \<Longrightarrow>
   addTexture rop (textures rop ! i) = (int i, rop)"
  by (simp add: addTexture_def findIndex_nth Let_def)

lemma addTextures_fresh:
  "distinct (textures rop @ ts) \<Longrightarrow> length (textures rop) + length ts \<le> maxTextures rop \<Longrightarrow>
   addTextures rop ts =
     (map int [length (textures rop) ..< length (textures rop) + length ts],
      rop\<lparr>textures := textures rop @ ts\<rparr>)"
proof (induction ts arbitrary: rop)
  case Nil
  then show ?case by simp
next
  case (Cons t ts)
  let ?rop1 = "rop\<lparr>textures := textures rop @ [t]\<rparr>"
  from Cons.prems have a: "addTexture rop t = (int (length (textures rop)), ?rop1)"
    by (intro addTexture_new) auto
  from Cons.prems have "addTextures ?rop1 ts =
     (map int [length (textures ?rop1) ..< length (textures ?rop1) + length ts],
      ?rop1\<lparr>textures := textures ?rop1 @ ts\<rparr>)"
    by (intro Cons.IH) auto
  moreover have "[length (textures rop) ..< length (textures rop) + length (t # ts)] =
      length (textures rop) # [length (textures ?rop1) ..< length (textures ?rop1) + length ts]"
    by (simp add: upt_conv_Cons del: upt_Suc)
  ultimately show ?case using a by (simp del: upt_Suc)
qed

text \<open>
  C7. On a fresh render op, adding the distinct textures \<open>ts\<close>, at most \<open>maxTextures\<close> of
  them, returns the slots 0, 1, ... in order and stores the textures in that order. On the
  resulting op, adding a texture that is present returns its original slot and changes
  nothing; and once \<open>maxTextures\<close> textures are present, adding any other texture returns
  the sentinel \<open>0xffffffff\<close> and changes nothing.
\<close>

theorem addTexture_batching:
  assumes "distinct ts" and "length ts \<le> maxTextures (newRenderOp si mx)"
  shows "case addTextures (newRenderOp si mx) ts of (idxs, rop) \<Rightarrow>
           idxs = map int [0 ..< length ts] \<and> textures rop = ts \<and>
           maxTextures rop = maxTextures (newRenderOp si mx) \<and>
           (\<forall>i < length ts. addTexture rop (ts ! i) = (int i, rop)) \<and>
           (length ts = maxTextures rop \<longrightarrow>
              (\<forall>t. t \<notin> set ts \<longrightarrow> addTexture rop t = (0xffffffff, rop)))"
proof -
  let ?r0 = "newRenderOp si mx"
  have t0: "textures ?r0 = []" by (simp add: newRenderOp_def)
  from assms t0 have "addTextures ?r0 ts = (map int [0 ..< length ts], ?r0\<lparr>textures := ts\<rparr>)"
    using addTextures_fresh [of ?r0 ts] by simp
  moreover have "\<forall>i < length ts.
      addTexture (?r0\<lparr>textures := ts\<rparr>) (ts ! i) = (int i, ?r0\<lparr>textures := ts\<rparr>)"
    using assms(1) addTexture_present [of "?r0\<lparr>textures := ts\<rparr>"] by simp
  moreover have "length ts = maxTextures ?r0 \<longrightarrow>
      (\<forall>t. t \<notin> set ts \<longrightarrow>
         addTexture (?r0\<lparr>textures := ts\<rparr>) t = (0xffffffff, ?r0\<lparr>textures := ts\<rparr>))"
    using addTexture_full [of _ "?r0\<lparr>textures := ts\<rparr>"] by simp
  ultimately show ?thesis by simp
qed

theorem addTexture_batching_witness:
  "addTextures (newRenderOp True 3) [7, 5, 9] =
     ([0, 1, 2], \<lparr>textures = [7, 5, 9], maxTextures = 3\<rparr>) \<and>
   addTexture \<lparr>textures = [7, 5, 9], maxTextures = 3\<rparr> 5 =
     (1, \<lparr>textures = [7, 5, 9], maxTextures = 3\<rparr>) \<and>
   addTexture \<lparr>textures = [7, 5, 9], maxTextures = 3\<rparr> 4 =
     (0xffffffff, \<lparr>textures = [7, 5, 9], maxTextures = 3\<rparr>)"
proof -
  have d: "distinct [7, 5, 9 :: nat]" by simp
  have l: "length [7, 5, 9 :: nat] \<le> maxTextures (newRenderOp True 3)"
    by (simp add: newRenderOp_def)
  obtain idxs rop where e: "addTextures (newRenderOp True 3) [7, 5, 9] = (idxs, rop)"
    by (cases "addTextures (newRenderOp True 3) [7, 5, 9]")
  have u: "map int [0 ..< length [7, 5, 9 :: nat]] = [0, 1, 2]"
    by (simp add: upt_conv_Cons)
  from addTexture_batching [OF d l] e
  have 1: "idxs = map int [0 ..< length [7, 5, 9 :: nat]]" and 2: "textures rop = [7, 5, 9]"
    and 3: "maxTextures rop = 3"
    and 4: "\<forall>i < 3. addTexture rop ([7, 5, 9] ! i) = (int i, rop)"
    and 5: "\<forall>t. t \<notin> set [7, 5, 9] \<longrightarrow> addTexture rop t = (0xffffffff, rop)"
    by (simp_all add: newRenderOp_def del: upt_Suc)
  from 2 3 have rop: "rop = \<lparr>textures = [7, 5, 9], maxTextures = 3\<rparr>" by simp
  from 4 [rule_format, of 1] have "addTexture rop 5 = (1, rop)" by simp
  moreover from 5 have "addTexture rop 4 = (0xffffffff, rop)" by simp
  moreover from 1 u have "idxs = [0, 1, 2]" by simp
  ultimately show ?thesis using e rop by simp
qed

section \<open>Basic facts about the store and the outcome monad\<close>

lemma bindR_Inr:
  "bindR m k = Some (Inr v) \<longleftrightarrow> (\<exists>u. m = Some (Inr u) \<and> k u = Some (Inr v))"
  by (auto simp: bindR_def split: option.splits sum.splits)

lemma ret_Inr [simp]: "ret a = Some (Inr b) \<longleftrightarrow> a = b"
  by (simp add: ret_def)

lemma throw_Inr [simp]: "throw e \<noteq> Some (Inr b)"
  by (simp add: throw_def)

lemma map_upd_same:
  "f (g (nodes w ! n)) = f (nodes w ! n) \<Longrightarrow> map f (nodes (upd w n g)) = map f (nodes w)"
  by (simp add: upd_def map_update) (metis list_update_id map_update)

lemma length_upd [simp]: "length (nodes (upd w n g)) = length (nodes w)"
  by (simp add: upd_def)

lemma calls_upd [simp]: "calls (upd w n g) = calls w"
  by (simp add: upd_def)

lemma node_upd:
  "m < length (nodes w) \<Longrightarrow> node (upd w n g) m = (if m = n then g (node w n) else node w m)"
  by (simp add: upd_def node_def)

lemma node_upd_neq [simp]: "m \<noteq> n \<Longrightarrow> node (upd w n g) m = node w m"
  by (simp add: upd_def node_def)

lemma node_map:
  "map f (nodes w') = map f (nodes w) \<Longrightarrow> m < length (nodes w) \<Longrightarrow> f (node w' m) = f (node w m)"
  by (metis length_map node_def nth_map)

lemma setRTTUpdates_frame:
  assumes "setRTTUpdates w n t = Some r" and "\<And>nd b. f (nd\<lparr>hasRTTupdates := b\<rparr>) = f nd"
  shows "\<forall>w'. r = Inr w' \<longrightarrow> map f (nodes w') = map f (nodes w) \<and> calls w' = calls w"
proof (rule setRTTUpdates.raw_induct [OF _ assms(1)], goal_cases)
  case (1 rec w n t r)
  let ?w1 = "upd w n (\<lambda>nd. nd\<lparr>hasRTTupdates := True\<rparr>)"
  have m1: "map f (nodes ?w1) = map f (nodes w)"
    by (rule map_upd_same) (simp add: assms(2))
  show ?case
  proof (cases "parent (props (node ?w1 n))")
    case None
    with 1(2) m1 show ?thesis by (auto simp: Let_def)
  next
    case (Some p)
    with 1(2) have "rec ?w1 p t = Some r" by (simp add: Let_def)
    from 1(1) [OF this] m1 show ?thesis by simp
  qed
qed

lemma setUpdateType_frame:
  assumes "setUpdateType w n t = Some r"
    and "\<And>nd b. f (nd\<lparr>hasRTTupdates := b\<rparr>) = f nd"
    and "\<And>nd u. f (nd\<lparr>updateType := u\<rparr>) = f nd"
  shows "\<forall>w'. r = Inr w' \<longrightarrow> map f (nodes w') = map f (nodes w) \<and> calls w' = calls w"
proof (rule setUpdateType.raw_induct [OF _ assms(1)], goal_cases)
  case (1 rec w n t r)
  let ?w1 = "upd w n (\<lambda>nd. nd\<lparr>updateType := updateType nd OR t\<rparr>)"
  have m1: "map f (nodes ?w1) = map f (nodes w)"
    by (rule map_upd_same) (simp add: assms(3))
  show ?case
  proof (intro allI impI)
    fix w' assume r: "r = Inr w'"
    with 1(2) obtain w2 where
      a: "(case parent (props (node ?w1 n)) of None \<Rightarrow> ret ?w1
           | Some p \<Rightarrow> if updateType (node ?w1 p) AND Children = 0 then rec ?w1 p Children else ret ?w1)
          = Some (Inr w2)"
      and b: "(if parentHasRenderTexture (node w2 n) then setRTTUpdates w2 n t else ret w2) = Some (Inr w')"
      by (auto simp: Let_def bindR_Inr)
    from a have m2: "map f (nodes w2) = map f (nodes ?w1) \<and> calls w2 = calls ?w1"
      using 1(1) by (auto split: option.splits if_splits)
    from b have "map f (nodes w') = map f (nodes w2) \<and> calls w' = calls w2"
      using setRTTUpdates_frame [OF _ assms(2), of w2 n t "Inr w'"] by (auto split: if_splits)
    with m1 m2 show "map f (nodes w') = map f (nodes w) \<and> calls w' = calls w" by simp
  qed
qed

lemma flags_trans: "(u::UpdateType) OR v = v \<Longrightarrow> v OR z = z \<Longrightarrow> u OR z = z"
  by (metis or.assoc)


lemma flags_has: "((u::UpdateType) OR t) OR v = v \<Longrightarrow> v AND t = t"
proof -
  assume a: "(u OR t) OR v = v"
  have "v AND t = ((u OR t) OR v) AND t" using a by simp
  also have "\<dots> = t"
    by (simp add: bit_eq_iff bit_and_iff bit_or_iff) blast
  finally show ?thesis .
qed

lemma setRTTUpdates_updateType:
  assumes "setRTTUpdates w n t = Some (Inr w')"
  shows "length (nodes w') = length (nodes w)"
    and "m < length (nodes w) \<Longrightarrow> updateType (node w' m) = updateType (node w m)"
    and "m < length (nodes w) \<Longrightarrow> props (node w' m) = props (node w m)"
proof -
  have a: "map updateType (nodes w') = map updateType (nodes w)"
    using setRTTUpdates_frame [OF assms, of updateType] by simp
  have b: "map props (nodes w') = map props (nodes w)"
    using setRTTUpdates_frame [OF assms, of props] by simp
  from a show "length (nodes w') = length (nodes w)" by (metis length_map)
  from a show "m < length (nodes w) \<Longrightarrow> updateType (node w' m) = updateType (node w m)"
    by (rule node_map)
  from b show "m < length (nodes w) \<Longrightarrow> props (node w' m) = props (node w m)"
    by (rule node_map)
qed

lemma setUpdateType_props:
  assumes "setUpdateType w n t = Some (Inr w')"
  shows "length (nodes w') = length (nodes w)"
    and "m < length (nodes w) \<Longrightarrow> props (node w' m) = props (node w m)"
proof -
  have b: "map props (nodes w') = map props (nodes w)"
    using setUpdateType_frame [OF assms, of props] by simp
  from b show "length (nodes w') = length (nodes w)" by (metis length_map)
  from b show "m < length (nodes w) \<Longrightarrow> props (node w' m) = props (node w m)"
    by (rule node_map)
qed

lemma setUpdateType_grows:
  assumes "setUpdateType w n t = Some r"
  shows "\<forall>w'. r = Inr w' \<longrightarrow> length (nodes w') = length (nodes w) \<and>
           (\<forall>m < length (nodes w). updateType (node w m) OR updateType (node w' m) = updateType (node w' m))"
proof (rule setUpdateType.raw_induct [OF _ assms], goal_cases)
  case (1 rec w n t r)
  let ?w1 = "upd w n (\<lambda>nd. nd\<lparr>updateType := updateType nd OR t\<rparr>)"
  show ?case
  proof (intro allI impI)
    fix w' assume r: "r = Inr w'"
    with 1(2) obtain w2 where
      a: "(case parent (props (node ?w1 n)) of None \<Rightarrow> ret ?w1
           | Some p \<Rightarrow> if updateType (node ?w1 p) AND Children = 0 then rec ?w1 p Children else ret ?w1)
          = Some (Inr w2)"
      and b: "(if parentHasRenderTexture (node w2 n) then setRTTUpdates w2 n t else ret w2) = Some (Inr w')"
      by (auto simp: Let_def bindR_Inr)
    from a have "w2 = ?w1 \<or> (\<exists>p. rec ?w1 p Children = Some (Inr w2))"
      by (auto split: option.splits if_splits)
    then have lg: "length (nodes w2) = length (nodes ?w1) \<and>
        (\<forall>m < length (nodes ?w1). updateType (node ?w1 m) OR updateType (node w2 m) = updateType (node w2 m))"
    proof
      assume "w2 = ?w1" then show ?thesis by simp
    next
      assume "\<exists>p. rec ?w1 p Children = Some (Inr w2)"
      then obtain p where "rec ?w1 p Children = Some (Inr w2)" ..
      from 1(1) [OF this] show ?thesis by simp
    qed
    then have l2: "length (nodes w2) = length (nodes w)"
      and g2: "\<forall>m < length (nodes w). updateType (node ?w1 m) OR updateType (node w2 m) = updateType (node w2 m)"
      by simp_all
    from b have l3: "length (nodes w') = length (nodes w2)"
      and g3: "\<forall>m < length (nodes w). updateType (node w' m) = updateType (node w2 m)"
      using setRTTUpdates_updateType(1,2) [of w2 n t w'] l2 by (auto split: if_splits)
    have g1: "\<forall>m < length (nodes w). updateType (node w m) OR updateType (node ?w1 m) = updateType (node ?w1 m)"
      by (simp add: node_upd or.assoc [symmetric])
    have "\<forall>m < length (nodes w). updateType (node w m) OR updateType (node w' m) = updateType (node w' m)"
    proof (intro allI impI)
      fix m assume m: "m < length (nodes w)"
      from g1 m have "updateType (node w m) OR updateType (node ?w1 m) = updateType (node ?w1 m)" by blast
      moreover from g2 m have "updateType (node ?w1 m) OR updateType (node w2 m) = updateType (node w2 m)" by blast
      ultimately have "updateType (node w m) OR updateType (node w2 m) = updateType (node w2 m)"
        by (rule flags_trans)
      with g3 m show "updateType (node w m) OR updateType (node w' m) = updateType (node w' m)" by simp
    qed
    with l2 l3 show "length (nodes w') = length (nodes w) \<and>
           (\<forall>m < length (nodes w). updateType (node w m) OR updateType (node w' m) = updateType (node w' m))"
      by simp
  qed
qed

lemma setUpdateType_self:
  assumes "setUpdateType w n t = Some (Inr w')" and "n < length (nodes w)"
  shows "updateType (node w' n) AND t = t"
proof -
  let ?w1 = "upd w n (\<lambda>nd. nd\<lparr>updateType := updateType nd OR t\<rparr>)"
  from assms(1) obtain w2 where
      a: "(case parent (props (node ?w1 n)) of None \<Rightarrow> ret ?w1
           | Some p \<Rightarrow> if updateType (node ?w1 p) AND Children = 0 then setUpdateType ?w1 p Children else ret ?w1)
          = Some (Inr w2)"
      and b: "(if parentHasRenderTexture (node w2 n) then setRTTUpdates w2 n t else ret w2) = Some (Inr w')"
    by (subst (asm) setUpdateType.simps) (auto simp: Let_def bindR_Inr)
  from a have "w2 = ?w1 \<or> (\<exists>p. setUpdateType ?w1 p Children = Some (Inr w2))"
    by (auto split: option.splits if_splits)
  then have l2: "length (nodes w2) = length (nodes w)"
    and g2: "updateType (node ?w1 n) OR updateType (node w2 n) = updateType (node w2 n)"
  proof -
    assume d: "w2 = ?w1 \<or> (\<exists>p. setUpdateType ?w1 p Children = Some (Inr w2))"
    have "length (nodes w2) = length (nodes ?w1) \<and>
        (\<forall>m < length (nodes ?w1). updateType (node ?w1 m) OR updateType (node w2 m) = updateType (node w2 m))"
      using d
    proof
      assume "w2 = ?w1" then show ?thesis by simp
    next
      assume "\<exists>p. setUpdateType ?w1 p Children = Some (Inr w2)"
      then obtain p where "setUpdateType ?w1 p Children = Some (Inr w2)" ..
      from setUpdateType_grows [OF this] show ?thesis by simp
    qed
    then show "length (nodes w2) = length (nodes w)"
      and "updateType (node ?w1 n) OR updateType (node w2 n) = updateType (node w2 n)"
      using assms(2) by simp_all
  qed
  from b have g3: "updateType (node w' n) = updateType (node w2 n)"
    using setRTTUpdates_updateType(2) [of w2 n t w' n] l2 assms(2) by (auto split: if_splits)
  from g2 have "(updateType (node w n) OR t) OR updateType (node w2 n) = updateType (node w2 n)"
    using assms(2) by (simp add: node_upd)
  then have "updateType (node w2 n) AND t = t" by (rule flags_has)
  with g3 show ?thesis by simp
qed

lemma node_upd_field:
  assumes "f (g (node w n)) = f (node w n)"
  shows "f (node (upd w n g) m) = f (node w m)"
proof (cases "n < length (nodes w)")
  case True
  with assms show ?thesis by (cases "m = n") (simp_all add: upd_def node_def)
next
  case False
  then have "(nodes w)[n := g (nodes w ! n)] = nodes w" by (simp add: list_update_beyond)
  then show ?thesis by (simp add: upd_def node_def)
qed

lemma isAncestorChain_cong:
  assumes "\<forall>m < length (nodes w). props (node w1 m) = props (node w m)"
    and "a < length (nodes w)" and "\<forall>b \<in> set as. b < length (nodes w)"
  shows "isAncestorChain w1 a as = isAncestorChain w a as"
  using assms(2,3)
proof (induction as arbitrary: a)
  case Nil
  show ?case by simp
next
  case (Cons b as)
  from Cons.prems assms(1) have "props (node w1 a) = props (node w a)" by simp
  moreover from Cons.prems have "isAncestorChain w1 b as = isAncestorChain w b as"
    by (intro Cons.IH) simp_all
  ultimately show ?case by simp
qed

lemma setUpdateType_unfold:
  assumes "setUpdateType w n t = Some (Inr w')"
  obtains w2 where
    "(case parent (props (node w n)) of
        None \<Rightarrow> w2 = upd w n (\<lambda>nd. nd\<lparr>updateType := updateType nd OR t\<rparr>)
      | Some p \<Rightarrow>
          if updateType (node (upd w n (\<lambda>nd. nd\<lparr>updateType := updateType nd OR t\<rparr>)) p) AND Children = 0
          then setUpdateType (upd w n (\<lambda>nd. nd\<lparr>updateType := updateType nd OR t\<rparr>)) p Children = Some (Inr w2)
          else w2 = upd w n (\<lambda>nd. nd\<lparr>updateType := updateType nd OR t\<rparr>))"
    and "length (nodes w2) = length (nodes w)"
    and "\<forall>m < length (nodes w). updateType (node w' m) = updateType (node w2 m)"
proof -
  let ?w1 = "upd w n (\<lambda>nd. nd\<lparr>updateType := updateType nd OR t\<rparr>)"
  have pw1: "props (node ?w1 n) = props (node w n)"
    by (rule node_upd_field) simp
  from assms obtain w2 where
      a: "(case parent (props (node ?w1 n)) of None \<Rightarrow> ret ?w1
           | Some p \<Rightarrow> if updateType (node ?w1 p) AND Children = 0 then setUpdateType ?w1 p Children else ret ?w1)
          = Some (Inr w2)"
      and b: "(if parentHasRenderTexture (node w2 n) then setRTTUpdates w2 n t else ret w2) = Some (Inr w')"
    by (subst (asm) setUpdateType.simps) (auto simp: Let_def bindR_Inr)
  from a pw1 have c: "(case parent (props (node w n)) of
        None \<Rightarrow> w2 = ?w1
      | Some p \<Rightarrow> if updateType (node ?w1 p) AND Children = 0
          then setUpdateType ?w1 p Children = Some (Inr w2) else w2 = ?w1)"
    by (auto split: option.splits if_splits)
  from a have "w2 = ?w1 \<or> (\<exists>p. setUpdateType ?w1 p Children = Some (Inr w2))"
    by (auto split: option.splits if_splits)
  then have l2: "length (nodes w2) = length (nodes w)"
  proof
    assume "w2 = ?w1" then show ?thesis by simp
  next
    assume "\<exists>p. setUpdateType ?w1 p Children = Some (Inr w2)"
    then obtain p where "setUpdateType ?w1 p Children = Some (Inr w2)" ..
    from setUpdateType_props(1) [OF this] show ?thesis by simp
  qed
  from b have g3: "\<forall>m < length (nodes w). updateType (node w' m) = updateType (node w2 m)"
    using setRTTUpdates_updateType(2) [of w2 n t w'] l2 by (auto split: if_splits)
  from c l2 g3 show thesis by (rule that)
qed

section \<open>Dirty propagation: \<open>setUpdateType\<close>\<close>

text \<open>Termination. Where the parent references are well-founded, \<open>setRTTUpdates\<close>
  and \<open>setUpdateType\<close> return; neither of them throws.\<close>

lemma parentRanked_cong:
  assumes "map props (nodes w') = map props (nodes w)" and "parentRanked rk w"
  shows "parentRanked rk w'"
proof -
  from assms(1) have "length (map props (nodes w')) = length (map props (nodes w))" by simp
  then have l: "length (nodes w') = length (nodes w)" by simp
  have "\<And>m. m < length (nodes w) \<Longrightarrow> props (node w' m) = props (node w m)"
    using assms(1) by (rule node_map)
  with assms(2) l show ?thesis by (simp add: parentRanked_def)
qed

lemma parentRanked_upd:
  assumes "props (g (node w n)) = props (node w n)" and "parentRanked rk w"
  shows "parentRanked rk (upd w n g)"
proof (rule parentRanked_cong [OF _ assms(2)])
  from assms(1) show "map props (nodes (upd w n g)) = map props (nodes w)"
    by (intro map_upd_same) (simp add: node_def)
qed

lemma setRTTUpdates_returns:
  assumes "parentRanked rk w" and "n < length (nodes w)"
  shows "\<exists>w'. setRTTUpdates w n t = Some (Inr w')"
  using assms
proof (induction "rk n" arbitrary: w n rule: less_induct)
  case less
  let ?w1 = "upd w n (\<lambda>nd. nd\<lparr>hasRTTupdates := True\<rparr>)"
  have pr1: "parentRanked rk ?w1" by (rule parentRanked_upd [OF _ less.prems(1)]) simp
  have pp: "parent (props (node ?w1 n)) = parent (props (node w n))"
    by (rule node_upd_field) simp
  show ?case
  proof (cases "parent (props (node w n))")
    case None
    with pp show ?thesis by (subst setRTTUpdates.simps) (simp add: Let_def)
  next
    case (Some p)
    with less.prems have "p < length (nodes w)" and "rk p < rk n"
      by (auto simp: parentRanked_def)
    with less.hyps [of p ?w1] pr1 obtain w' where "setRTTUpdates ?w1 p t = Some (Inr w')"
      by auto
    with pp Some show ?thesis by (subst setRTTUpdates.simps) (simp add: Let_def)
  qed
qed

lemma setUpdateType_returns:
  assumes "parentRanked rk w" and "n < length (nodes w)"
  shows "\<exists>w'. setUpdateType w n t = Some (Inr w')"
  using assms
proof (induction "rk n" arbitrary: w n t rule: less_induct)
  case less
  let ?w1 = "upd w n (\<lambda>nd. nd\<lparr>updateType := updateType nd OR t\<rparr>)"
  let ?up = "(case parent (props (node ?w1 n)) of
              None \<Rightarrow> ret ?w1
            | Some p \<Rightarrow>
                if updateType (node ?w1 p) AND Children = 0
                then setUpdateType ?w1 p Children
                else ret ?w1)"
  have pr1: "parentRanked rk ?w1" by (rule parentRanked_upd [OF _ less.prems(1)]) simp
  have pp: "parent (props (node ?w1 n)) = parent (props (node w n))"
    by (rule node_upd_field) simp
  have "\<exists>w2. ?up = Some (Inr w2) \<and> map props (nodes w2) = map props (nodes ?w1)"
  proof (cases "parent (props (node w n))")
    case None
    with pp show ?thesis by simp
  next
    case (Some p)
    with less.prems have pl: "p < length (nodes w)" and rp: "rk p < rk n"
      by (auto simp: parentRanked_def)
    show ?thesis
    proof (cases "updateType (node ?w1 p) AND Children = 0")
      case False
      with pp Some show ?thesis by simp
    next
      case True
      from less.hyps [of p ?w1 Children] rp pr1 pl obtain w2 where
        s: "setUpdateType ?w1 p Children = Some (Inr w2)" by auto
      from setUpdateType_frame [OF s, of props]
      have "map props (nodes w2) = map props (nodes ?w1)" by simp
      with s True pp Some show ?thesis by simp
    qed
  qed
  then obtain w2 where u: "?up = Some (Inr w2)"
    and m: "map props (nodes w2) = map props (nodes ?w1)" by blast
  from m pr1 have pr2: "parentRanked rk w2" by (rule parentRanked_cong)
  from m have "length (map props (nodes w2)) = length (map props (nodes ?w1))" by simp
  with less.prems(2) have n2: "n < length (nodes w2)" by simp
  have "\<exists>w'. (if parentHasRenderTexture (node w2 n) then setRTTUpdates w2 n t else ret w2)
            = Some (Inr w')"
    using setRTTUpdates_returns [OF pr2 n2, of t] by simp
  then obtain w' where
    "(if parentHasRenderTexture (node w2 n) then setRTTUpdates w2 n t else ret w2) = Some (Inr w')"
    by blast
  with u have "setUpdateType w n t = Some (Inr w')"
    by (subst setUpdateType.simps) (simp add: Let_def bindR_def)
  then show ?case by blast
qed

lemma chain_ranked:
  assumes "parentRanked rk w"
  shows "n < length (nodes w) \<Longrightarrow> isAncestorChain w n as \<Longrightarrow>
         (\<forall>m \<in> set as. m < length (nodes w) \<and> rk m < rk n) \<and> distinct (n # as)"
proof (induction as arbitrary: n)
  case Nil
  show ?case by simp
next
  case (Cons a as)
  from Cons.prems have par: "parent (props (node w n)) = Some a"
    and ch: "isAncestorChain w a as" by simp_all
  from assms Cons.prems(1) par have al: "a < length (nodes w)" and ra: "rk a < rk n"
    by (auto simp: parentRanked_def)
  from Cons.IH [OF al ch]
  have ih: "\<forall>m \<in> set as. m < length (nodes w) \<and> rk m < rk a" and d: "distinct (a # as)"
    by simp_all
  from ih ra have lt: "\<forall>m \<in> set (a # as). m < length (nodes w) \<and> rk m < rk n"
    using al by auto
  then have "n \<notin> set (a # as)" by auto
  with d lt show ?case by simp
qed

text \<open>
  Let \<open>a\<close> be an ancestor of \<open>n\<close> and \<open>pre\<close> the ancestors between \<open>n\<close> and
  \<open>a\<close>, on a path without repetition and with live references. After a completed
  \<open>setUpdateType X\<close> on \<open>n\<close>: if no ancestor below \<open>a\<close> had \<open>Children\<close> set before
  the call, \<open>a\<close> has \<open>Children\<close> set; if some ancestor below \<open>a\<close> had \<open>Children\<close> set
  before the call, the mask of \<open>a\<close> is unchanged.
\<close>

lemma setUpdateType_propagates_completed:
  assumes "setUpdateType w n X = Some (Inr w')"
    and "isAncestorChain w n (pre @ [a])"
    and "distinct (n # pre @ [a])"
    and "\<forall>m \<in> set (n # pre @ [a]). m < length (nodes w)"
  shows "((\<forall>b \<in> set pre. updateType (node w b) AND Children = 0) \<longrightarrow>
            updateType (node w' a) AND Children \<noteq> 0) \<and>
         ((\<exists>b \<in> set pre. updateType (node w b) AND Children \<noteq> 0) \<longrightarrow>
            updateType (node w' a) = updateType (node w a))"
  using assms
proof (induction pre arbitrary: w n X w')
  case Nil
  let ?w1 = "upd w n (\<lambda>nd. nd\<lparr>updateType := updateType nd OR X\<rparr>)"
  from Nil.prems have par: "parent (props (node w n)) = Some a" and an: "a \<noteq> n"
    and al: "a < length (nodes w)" by auto
  from Nil.prems(1) obtain w2 where
    c: "(case parent (props (node w n)) of
        None \<Rightarrow> w2 = ?w1
      | Some p \<Rightarrow> if updateType (node ?w1 p) AND Children = 0
          then setUpdateType ?w1 p Children = Some (Inr w2) else w2 = ?w1)"
    and g3: "\<forall>m < length (nodes w). updateType (node w' m) = updateType (node w2 m)"
    by (rule setUpdateType_unfold)
  have "updateType (node w2 a) AND Children \<noteq> 0"
  proof (cases "updateType (node ?w1 a) AND Children = 0")
    case True
    with c par have "setUpdateType ?w1 a Children = Some (Inr w2)" by simp
    from setUpdateType_self [OF this] al have "updateType (node w2 a) AND Children = Children"
      by simp
    then show ?thesis by (simp add: Children_def)
  next
    case False
    with c par have "w2 = ?w1" by simp
    with False show ?thesis by simp
  qed
  with g3 al show ?case by simp
next
  case (Cons a1 pre)
  let ?w1 = "upd w n (\<lambda>nd. nd\<lparr>updateType := updateType nd OR X\<rparr>)"
  from Cons.prems have par: "parent (props (node w n)) = Some a1"
    and ch: "isAncestorChain w a1 (pre @ [a])"
    and d1: "distinct (a1 # pre @ [a])"
    and a1n: "a1 \<noteq> n" and an: "a \<noteq> n" and pn: "n \<notin> set pre"
    and al: "a < length (nodes w)" and a1l: "a1 < length (nodes w)"
    and bl: "\<forall>m \<in> set (a1 # pre @ [a]). m < length (nodes w)"
    by auto
  from Cons.prems(1) obtain w2 where
    c: "(case parent (props (node w n)) of
        None \<Rightarrow> w2 = ?w1
      | Some p \<Rightarrow> if updateType (node ?w1 p) AND Children = 0
          then setUpdateType ?w1 p Children = Some (Inr w2) else w2 = ?w1)"
    and g3: "\<forall>m < length (nodes w). updateType (node w' m) = updateType (node w2 m)"
    by (rule setUpdateType_unfold)
  have u1: "\<And>m. m \<noteq> n \<Longrightarrow> updateType (node ?w1 m) = updateType (node w m)"
    by simp
  show ?case
  proof (cases "updateType (node w a1) AND Children = 0")
    case False
    with c par a1n have "w2 = ?w1" by simp
    with g3 al an have "updateType (node w' a) = updateType (node w a)" by simp
    with False show ?thesis by auto
  next
    case True
    with c par a1n have call: "setUpdateType ?w1 a1 Children = Some (Inr w2)" by simp
    have p1: "\<forall>m < length (nodes w). props (node ?w1 m) = props (node w m)"
      by (intro allI impI node_upd_field) simp
    have ch1: "isAncestorChain ?w1 a1 (pre @ [a])"
      using isAncestorChain_cong [OF p1 a1l, of "pre @ [a]"] bl ch by simp
    have bl1: "\<forall>m \<in> set (a1 # pre @ [a]). m < length (nodes ?w1)"
      using bl by simp
    from Cons.IH [OF call ch1 d1 bl1]
    have ih: "((\<forall>b \<in> set pre. updateType (node ?w1 b) AND Children = 0) \<longrightarrow>
            updateType (node w2 a) AND Children \<noteq> 0) \<and>
         ((\<exists>b \<in> set pre. updateType (node ?w1 b) AND Children \<noteq> 0) \<longrightarrow>
            updateType (node w2 a) = updateType (node ?w1 a))" .
    have e: "\<forall>b \<in> set pre. updateType (node ?w1 b) = updateType (node w b)"
    proof
      fix b assume "b \<in> set pre"
      with pn have "b \<noteq> n" by auto
      then show "updateType (node ?w1 b) = updateType (node w b)" by (rule u1)
    qed
    from ih e have ih': "((\<forall>b \<in> set pre. updateType (node w b) AND Children = 0) \<longrightarrow>
            updateType (node w2 a) AND Children \<noteq> 0) \<and>
         ((\<exists>b \<in> set pre. updateType (node w b) AND Children \<noteq> 0) \<longrightarrow>
            updateType (node w2 a) = updateType (node w a))"
      using an by simp
    from g3 al have "updateType (node w' a) = updateType (node w2 a)" by simp
    with ih' True show ?thesis by auto
  qed
qed

text \<open>
  C2. In a store whose parent references are well-founded (a forest), let \<open>a\<close> be an
  ancestor of the node \<open>n\<close> and \<open>pre\<close> the ancestors between \<open>n\<close> and \<open>a\<close>. For
  every mask \<open>X\<close> (nonzero or not), \<open>setUpdateType X\<close> on \<open>n\<close> returns, and in the
  store it returns: if no ancestor below \<open>a\<close> had \<open>Children\<close> set before the call, \<open>a\<close>
  has \<open>Children\<close> set; if some ancestor below \<open>a\<close> had \<open>Children\<close> set before the call,
  the propagation stopped there and the mask of \<open>a\<close> is unchanged.
\<close>

theorem setUpdateType_propagates:
  assumes "parentRanked rk w" and "n < length (nodes w)"
    and "isAncestorChain w n (pre @ [a])"
  shows "\<exists>w'. setUpdateType w n X = Some (Inr w') \<and>
           ((\<forall>b \<in> set pre. updateType (node w b) AND Children = 0) \<longrightarrow>
              updateType (node w' a) AND Children \<noteq> 0) \<and>
           ((\<exists>b \<in> set pre. updateType (node w b) AND Children \<noteq> 0) \<longrightarrow>
              updateType (node w' a) = updateType (node w a))"
proof -
  from setUpdateType_returns [OF assms(1,2)] obtain w' where
    s: "setUpdateType w n X = Some (Inr w')" by blast
  from chain_ranked [OF assms(1,2,3)] assms(2)
  have d: "distinct (n # pre @ [a])"
    and l: "\<forall>m \<in> set (n # pre @ [a]). m < length (nodes w)" by auto
  from setUpdateType_propagates_completed [OF s assms(3) d l] s show ?thesis by blast
qed

lemma setUpdateType_chain_clean: "setUpdateType (chainWorld 0 0 0 0) 3 Local = Some (Inr (chainWorld 1 1 1 4))"
  by (simp add: setUpdateType.simps chainWorld_def treeNode_def blankNode_def upd_def node_def
      ret_def bindR_def Let_def UpdateType_defs)

lemma setUpdateType_chain_flagged: "setUpdateType (chainWorld 0 0 1 0) 3 Local = Some (Inr (chainWorld 0 0 1 4))"
  by (simp add: setUpdateType.simps chainWorld_def treeNode_def blankNode_def upd_def node_def
      ret_def bindR_def Let_def UpdateType_defs)

lemma chain_parentRanked: "parentRanked (\<lambda>k. k) (chainWorld u0 u1 u2 u3)"
  by (simp add: parentRanked_def chainWorld_def treeNode_def blankNode_def node_def
      less_Suc_eq numeral_nat)

theorem setUpdateType_propagates_witness:
  "setUpdateType (chainWorld 0 0 0 0) 3 Local = Some (Inr (chainWorld 1 1 1 4)) \<and>
   updateType (node (chainWorld 1 1 1 4) 0) AND Children \<noteq> 0 \<and>
   setUpdateType (chainWorld 0 0 1 0) 3 Local = Some (Inr (chainWorld 0 0 1 4)) \<and>
   updateType (node (chainWorld 0 0 1 4) 0) = updateType (node (chainWorld 0 0 1 0) 0)"
proof -
  have c1: "isAncestorChain (chainWorld 0 0 0 0) 3 ([2, 1] @ [0])"
    and c2: "isAncestorChain (chainWorld 0 0 1 0) 3 ([2, 1] @ [0])"
    by (simp_all add: chainWorld_def treeNode_def blankNode_def node_def)
  have b1: "3 < length (nodes (chainWorld 0 0 0 0))"
    and b2: "3 < length (nodes (chainWorld 0 0 1 0))"
    by (simp_all add: chainWorld_def)
  have n1: "\<forall>b \<in> set [2, 1]. updateType (node (chainWorld 0 0 0 0) b) AND Children = 0"
    and n2: "\<exists>b \<in> set [2, 1]. updateType (node (chainWorld 0 0 1 0) b) AND Children \<noteq> 0"
    by (simp_all add: chainWorld_def treeNode_def blankNode_def node_def Children_def)
  from setUpdateType_propagates [OF chain_parentRanked b1 c1, of Local] n1
    setUpdateType_chain_clean
  have "updateType (node (chainWorld 1 1 1 4) 0) AND Children \<noteq> 0" by auto
  moreover from setUpdateType_propagates [OF chain_parentRanked b2 c2, of Local] n2
    setUpdateType_chain_flagged
  have "updateType (node (chainWorld 0 0 1 4) 0) = updateType (node (chainWorld 0 0 1 0) 0)"
    by auto
  ultimately show ?thesis
    using setUpdateType_chain_clean setUpdateType_chain_flagged by simp
qed

section \<open>The \<open>parent\<close> setter and the tree invariant\<close>

lemma relink_length [simp]: "length (relink L n newParent) = length L"
  by (simp add: relink_def Let_def split: option.splits)

lemma linksConsistent_notin:
  assumes "linksConsistent L" and "i < length L" and "fst (L ! n) \<noteq> Some i"
  shows "n \<notin> set (snd (L ! i))"
  using assms by (auto simp: linksConsistent_def)

lemma linksConsistent_parent:
  assumes "linksConsistent L" and "n < length L" and "fst (L ! n) = Some p"
  shows "p < length L \<and> n \<in> set (snd (L ! p))"
proof -
  from assms(1) have "\<forall>c < length L. case fst (L ! c) of None \<Rightarrow> True
      | Some q \<Rightarrow> q < length L \<and> c \<in> set (snd (L ! q))"
    by (simp add: linksConsistent_def)
  with assms(2) have "case fst (L ! n) of None \<Rightarrow> True
      | Some q \<Rightarrow> q < length L \<and> n \<in> set (snd (L ! q))" by blast
  with assms(3) show ?thesis by simp
qed

lemma relink_nth:
  assumes "linksConsistent L" and "n < length L"
    and "\<forall>p. newParent = Some p \<longrightarrow> p < length L" and "i < length L"
  shows "relink L n newParent ! i =
          (if i = n then newParent else fst (L ! i),
           remove1 n (snd (L ! i)) @ (if newParent = Some i then [n] else []))"
proof -
  have keep: "fst (L ! n) \<noteq> Some i \<Longrightarrow> remove1 n (snd (L ! i)) = snd (L ! i)"
    using linksConsistent_notin [OF assms(1) assms(4)] by (simp add: remove1_idem)
  show ?thesis
  proof (cases "fst (L ! n)")
    case None
    with keep assms(2,3,4) show ?thesis
      by (cases newParent) (auto simp: relink_def Let_def nth_list_update)
  next
    case (Some op)
    from linksConsistent_parent [OF assms(1,2) Some] have "op < length L" by simp
    with Some keep assms(2,3,4) show ?thesis
      by (cases newParent) (auto simp: relink_def Let_def nth_list_update)
  qed
qed

lemma relink_consistent:
  assumes "linksConsistent L" and "n < length L" and "\<forall>p. newParent = Some p \<longrightarrow> p < length L"
  shows "linksConsistent (relink L n newParent)"
proof -
  let ?L = "relink L n newParent"
  have nth: "\<And>i. i < length L \<Longrightarrow> ?L ! i =
          (if i = n then newParent else fst (L ! i),
           remove1 n (snd (L ! i)) @ (if newParent = Some i then [n] else []))"
    by (rule relink_nth [OF assms])
  have k1: "\<And>p. p < length L \<Longrightarrow> distinct (snd (L ! p))"
    and k2: "\<And>p c. p < length L \<Longrightarrow> c \<in> set (snd (L ! p)) \<Longrightarrow> c < length L \<and> fst (L ! c) = Some p"
    and k3: "\<And>c p. c < length L \<Longrightarrow> fst (L ! c) = Some p \<Longrightarrow> p < length L \<and> c \<in> set (snd (L ! p))"
  proof -
    from assms(1) have K1: "\<forall>p < length L. distinct (snd (L ! p)) \<and>
        (\<forall>c \<in> set (snd (L ! p)). c < length L \<and> fst (L ! c) = Some p)"
      by (simp add: linksConsistent_def)
    from K1 show "\<And>p. p < length L \<Longrightarrow> distinct (snd (L ! p))" by blast
    from K1 show "\<And>p c. p < length L \<Longrightarrow> c \<in> set (snd (L ! p)) \<Longrightarrow>
        c < length L \<and> fst (L ! c) = Some p" by blast
    show "\<And>c p. c < length L \<Longrightarrow> fst (L ! c) = Some p \<Longrightarrow>
        p < length L \<and> c \<in> set (snd (L ! p))"
      by (rule linksConsistent_parent [OF assms(1)])
  qed
  have a: "\<And>p. p < length L \<Longrightarrow> distinct (snd (?L ! p))"
    using k1 by (simp add: nth)
  have b: "\<And>p c. p < length L \<Longrightarrow> c \<in> set (snd (?L ! p)) \<Longrightarrow> c < length L \<and> fst (?L ! c) = Some p"
  proof -
    fix p c assume p: "p < length L" and c: "c \<in> set (snd (?L ! p))"
    from c p have "(c \<in> set (snd (L ! p)) \<and> c \<noteq> n) \<or> (c = n \<and> newParent = Some p)"
      using k1 [OF p] by (auto simp: nth split: if_splits)
    then show "c < length L \<and> fst (?L ! c) = Some p"
    proof
      assume h: "c \<in> set (snd (L ! p)) \<and> c \<noteq> n"
      with k2 [OF p] have "c < length L \<and> fst (L ! c) = Some p" by simp
      with h show ?thesis by (simp add: nth)
    next
      assume h: "c = n \<and> newParent = Some p"
      from nth [OF assms(2)] have "fst (?L ! n) = newParent" by simp
      with h assms(2) show ?thesis by simp
    qed
  qed
  have c: "\<And>c p. c < length L \<Longrightarrow> fst (?L ! c) = Some p \<Longrightarrow> p < length L \<and> c \<in> set (snd (?L ! p))"
  proof -
    fix c p assume c: "c < length L" and f: "fst (?L ! c) = Some p"
    show "p < length L \<and> c \<in> set (snd (?L ! p))"
    proof (cases "c = n")
      case True
      from nth [OF assms(2)] have "fst (?L ! n) = newParent" by simp
      with f True have np: "newParent = Some p" by simp
      with assms(3) have pl: "p < length L" by simp
      from nth [OF pl] np have "n \<in> set (snd (?L ! p))" by simp
      with pl True show ?thesis by simp
    next
      case False
      with f c have "fst (L ! c) = Some p" by (simp add: nth)
      from k3 [OF c this] have pl: "p < length L" and m: "c \<in> set (snd (L ! p))" by simp_all
      from m False k1 [OF pl] have "c \<in> set (remove1 n (snd (L ! p)))" by simp
      with pl show ?thesis by (simp add: nth)
    qed
  qed
  show ?thesis
    unfolding linksConsistent_def
  proof (intro conjI ballI)
    fix p assume "p \<in> set [0 ..< length ?L]"
    then have p: "p < length L" by simp
    from a [OF p] show "distinct (snd (?L ! p))" .
    fix c assume "c \<in> set (snd (?L ! p))"
    from b [OF p this] show "c < length ?L" and "fst (?L ! c) = Some p" by simp_all
  next
    fix c assume "c \<in> set [0 ..< length ?L]"
    then have cl: "c < length L" by simp
    show "case fst (?L ! c) of None \<Rightarrow> True
      | Some p \<Rightarrow> p < length ?L \<and> c \<in> set (snd (?L ! p))"
    proof (cases "fst (?L ! c)")
      case None
      then show ?thesis by simp
    next
      case (Some p)
      from c [OF cl Some] Some show ?thesis by simp
    qed
  qed
qed

lemma findIndex_ge: "- 1 \<le> findIndex P ts"
  by (induction ts) (auto simp: Let_def)

lemma indexOf_splice1:
  "v \<in> set xs \<Longrightarrow> indexOf xs v \<noteq> - 1 \<and> splice1 xs (nat (indexOf xs v)) = remove1 v xs"
proof (induction xs)
  case Nil
  then show ?case by simp
next
  case (Cons t ts)
  show ?case
  proof (cases "t = v")
    case True
    then show ?thesis by (simp add: indexOf_def splice1_def)
  next
    case False
    with Cons have ih: "indexOf ts v \<noteq> - 1" "splice1 ts (nat (indexOf ts v)) = remove1 v ts"
      by simp_all
    from ih(1) findIndex_ge [of "\<lambda>u. u = v" ts] have ge: "0 \<le> indexOf ts v"
      by (simp add: indexOf_def)
    from False ih(1) have e: "indexOf (t # ts) v = indexOf ts v + 1"
      by (simp add: indexOf_def Let_def)
    from ge have "nat (indexOf ts v + 1) = Suc (nat (indexOf ts v))" by simp
    with e ih(2) False ge show ?thesis by (simp add: splice1_def)
  qed
qed

lemma links_length [simp]: "length (links w) = length (nodes w)"
  by (simp add: links_def)

lemma links_nth:
  "m < length (nodes w) \<Longrightarrow> links w ! m = (parent (props (node w m)), children (node w m))"
  by (simp add: links_def node_def)

lemma links_upd:
  "links (upd w n g) = (links w)[n := (parent (props (g (node w n))), children (g (node w n)))]"
  by (simp add: links_def upd_def node_def map_update)

lemma setUpdateType_links:
  "setUpdateType w n t = Some (Inr w') \<Longrightarrow> links w' = links w"
  using setUpdateType_frame [of w n t "Inr w'" "\<lambda>nd. (parent (props nd), children nd)"]
  by (simp add: links_def)

lemma setRTTUpdates_links:
  "setRTTUpdates w n t = Some (Inr w') \<Longrightarrow> links w' = links w"
  using setRTTUpdates_frame [of w n t "Inr w'" "\<lambda>nd. (parent (props nd), children nd)"]
  by (simp add: links_def)

lemma assertTruthy_Inr [simp]: "assertTruthy c msg = Some (Inr u) \<longleftrightarrow> c"
  by (simp add: assertTruthy_def ret_def throw_def)

lemma set_parent_v1_links:
  assumes "treeConsistent w" and "n < length (nodes w)"
    and "\<forall>p. newParent = Some p \<longrightarrow> p < length (nodes w)"
  shows "\<exists>w'. set_parent_v1 w n newParent = Some (Inr w') \<and>
           links w' = relink (links w) n newParent"
proof -
  let ?L = "links w"
  let ?w1 = "upd w n (\<lambda>nd. nd\<lparr>props := (props nd)\<lparr>parent := newParent\<rparr>\<rparr>)"
  let ?L1 = "?L[n := (newParent, snd (?L ! n))]"
  from assms(1) have cons: "linksConsistent ?L" by (simp add: treeConsistent_def)
  have l1: "links ?w1 = ?L1" using assms(2) by (simp add: links_upd links_nth)
  have old: "parent (props (node w n)) = fst (?L ! n)" using assms(2) by (simp add: links_nth)
  define w2 where "w2 = (case parent (props (node w n)) of None \<Rightarrow> ?w1
     | Some op \<Rightarrow> upd ?w1 op (\<lambda>nd. nd\<lparr>children := splice1 (children nd)
          (nat (indexOf (children (node ?w1 op)) n))\<rparr>))"
  let ?L2 = "(case fst (?L ! n) of None \<Rightarrow> ?L1
               | Some op \<Rightarrow> ?L1[op := (fst (?L1 ! op), remove1 n (snd (?L1 ! op)))])"
  have step: "(case parent (props (node w n)) of
              None \<Rightarrow> ret ?w1
            | Some op \<Rightarrow>
               let index = indexOf (children (node ?w1 op)) n in
               bindR (assertTruthy (index \<noteq> -1) notFoundMessage) (\<lambda>_.
               ret (upd ?w1 op (\<lambda>nd. nd\<lparr>children := splice1 (children nd) (nat index)\<rparr>))))
        = ret w2 \<and> links w2 = ?L2"
  proof (cases "parent (props (node w n))")
    case None
    with old l1 show ?thesis by (simp add: w2_def)
  next
    case (Some op)
    with old have f: "fst (?L ! n) = Some op" by simp
    from linksConsistent_parent [OF cons _ f] assms(2)
    have opl: "op < length (nodes w)" and mem: "n \<in> set (snd (?L ! op))" by simp_all
    have ch: "children (node ?w1 op) = snd (?L1 ! op)"
      using opl l1 links_nth [of op ?w1] by simp
    have s1: "snd (?L1 ! op) = snd (?L ! op)"
      using opl assms(2) by (cases "op = n") simp_all
    from mem s1 ch have m1: "n \<in> set (children (node ?w1 op))" by simp
    from indexOf_splice1 [OF m1] have ix: "indexOf (children (node ?w1 op)) n \<noteq> - 1"
      and sp: "splice1 (children (node ?w1 op)) (nat (indexOf (children (node ?w1 op)) n))
                = remove1 n (children (node ?w1 op))" by simp_all
    have pf: "parent (props (node ?w1 op)) = fst (?L1 ! op)"
      using opl l1 links_nth [of op ?w1] by simp
    have "links w2 = ?L1[op := (fst (?L1 ! op), remove1 n (snd (?L1 ! op)))]"
      using Some sp ch pf l1 by (simp add: w2_def links_upd)
    with Some f ix show ?thesis
      by (simp add: w2_def Let_def bindR_def ret_def assertTruthy_def)
  qed
  define w3 where "w3 = (case newParent of None \<Rightarrow> w2
     | Some np \<Rightarrow> upd w2 np (\<lambda>nd. nd\<lparr>children := children nd @ [n]\<rparr>))"
  have l2len: "length (nodes w2) = length (nodes w)"
    by (simp add: w2_def split: option.splits)
  from step have l2: "links w2 = ?L2" by simp
  have l3: "links w3 = relink ?L n newParent"
  proof (cases newParent)
    case None
    show ?thesis
      using l2 [unfolded None] unfolding None w3_def relink_def Let_def by simp
  next
    case (Some np)
    with assms(3) l2len have "np < length (nodes w2)" by simp
    from links_nth [OF this] have "links w2 ! np = (parent (props (node w2 np)), children (node w2 np))" .
    then show ?thesis
      using l2 [unfolded Some] unfolding Some w3_def relink_def Let_def
      by (simp add: links_upd)
  qed
  have "set_parent_v1 w n newParent = Some (Inr w3)"
    using step by (simp add: set_parent_v1_def Let_def bindR_def ret_def w3_def split: option.splits)
  with l3 show ?thesis by blast
qed

lemma set_parent_same:
  "parent (props (node w n)) = newParent \<Longrightarrow> set_parent E w n newParent = Some (Inr w)"
  by (simp add: set_parent_def ret_def)

lemma set_parent_links:
  assumes "set_parent E w n newParent = Some (Inr w')"
    and "parent (props (node w n)) \<noteq> newParent"
    and "treeConsistent w" and "n < length (nodes w)"
    and "\<forall>p. newParent = Some p \<longrightarrow> p < length (nodes w)"
  shows "links w' = relink (links w) n newParent"
proof -
  let ?L = "links w"
  let ?w1 = "upd w n (\<lambda>nd. nd\<lparr>props := (props nd)\<lparr>parent := newParent\<rparr>\<rparr>)"
  let ?L1 = "?L[n := (newParent, snd (?L ! n))]"
  let ?L2 = "(case fst (?L ! n) of None \<Rightarrow> ?L1
               | Some op \<Rightarrow> ?L1[op := (fst (?L1 ! op), remove1 n (snd (?L1 ! op)))])"
  from assms(3) have cons: "linksConsistent ?L" by (simp add: treeConsistent_def)
  have l1: "links ?w1 = ?L1" using assms(4) by (simp add: links_upd links_nth)
  have old: "parent (props (node w n)) = fst (?L ! n)" using assms(4) by (simp add: links_nth)
  from assms(1,2) obtain w2 w5 where
    A: "(case parent (props (node w n)) of
                None \<Rightarrow> ret ?w1
              | Some op \<Rightarrow>
                 let index = indexOf (children (node ?w1 op)) n in
                 bindR (assertTruthy (index \<noteq> -1) notFoundMessage) (\<lambda>_.
                 setUpdateType
                   (upd ?w1 op (\<lambda>nd. nd\<lparr>children := splice1 (children nd) (nat index)\<rparr>))
                   op (Children OR ZIndexSortedChildren))) = Some (Inr w2)"
    and B: "(case newParent of
                None \<Rightarrow> ret w2
              | Some np \<Rightarrow>
                 bindR (setUpdateType
                          (upd w2 np (\<lambda>nd. nd\<lparr>children := children nd @ [n]\<rparr>)) n All) (\<lambda>w3.
                 bindR (setUpdateType w3 np (Children OR ZIndexSortedChildren)) (\<lambda>w4.
                 if rtt (props (node w4 np)) \<or> parentHasRenderTexture (node w4 np)
                 then setRTTUpdates w4 n All
                 else ret w4))) = Some (Inr w5)"
    and C: "w' = upd w5 n (updateScaleRotateTransform E)"
    by (auto simp: set_parent_def Let_def bindR_Inr)
  have l2: "links w2 = ?L2"
  proof (cases "parent (props (node w n))")
    case None
    with A old l1 show ?thesis by simp
  next
    case (Some op)
    with old have f: "fst (?L ! n) = Some op" by simp
    from linksConsistent_parent [OF cons _ f] assms(4)
    have opl: "op < length (nodes w)" and mem: "n \<in> set (snd (?L ! op))" by simp_all
    have ch: "children (node ?w1 op) = snd (?L1 ! op)"
      using opl l1 links_nth [of op ?w1] by simp
    have s1: "snd (?L1 ! op) = snd (?L ! op)"
      using opl assms(4) by (cases "op = n") simp_all
    from mem s1 ch have m1: "n \<in> set (children (node ?w1 op))" by simp
    from indexOf_splice1 [OF m1]
    have sp: "splice1 (children (node ?w1 op)) (nat (indexOf (children (node ?w1 op)) n))
                = remove1 n (children (node ?w1 op))" by simp
    have pf: "parent (props (node ?w1 op)) = fst (?L1 ! op)"
      using opl l1 links_nth [of op ?w1] by simp
    from A Some have "setUpdateType
                   (upd ?w1 op (\<lambda>nd. nd\<lparr>children := splice1 (children nd)
                       (nat (indexOf (children (node ?w1 op)) n))\<rparr>))
                   op (Children OR ZIndexSortedChildren) = Some (Inr w2)"
      by (simp add: Let_def bindR_Inr)
    from setUpdateType_links [OF this]
    have "links w2 = ?L1[op := (fst (?L1 ! op), remove1 n (snd (?L1 ! op)))]"
      using sp ch pf l1 by (simp add: links_upd)
    with f show ?thesis by simp
  qed
  have l2len: "length (nodes w2) = length (nodes w)"
    using l2 links_length [of w2] by (simp split: option.splits)
  have l5: "links w5 = relink ?L n newParent"
  proof (cases newParent)
    case None
    with B have "w5 = w2" by simp
    then show ?thesis
      using l2 [unfolded None] unfolding None relink_def Let_def by simp
  next
    case (Some np)
    with assms(5) l2len have "np < length (nodes w2)" by simp
    from links_nth [OF this]
    have n2: "links w2 ! np = (parent (props (node w2 np)), children (node w2 np))" .
    from B Some obtain w3 w4 where
      b1: "setUpdateType (upd w2 np (\<lambda>nd. nd\<lparr>children := children nd @ [n]\<rparr>)) n All
            = Some (Inr w3)"
      and b2: "setUpdateType w3 np (Children OR ZIndexSortedChildren) = Some (Inr w4)"
      and b3: "(if rtt (props (node w4 np)) \<or> parentHasRenderTexture (node w4 np)
                 then setRTTUpdates w4 n All else ret w4) = Some (Inr w5)"
      by (auto simp: bindR_Inr)
    from b3 have "links w5 = links w4"
      by (auto split: if_splits dest: setRTTUpdates_links)
    with setUpdateType_links [OF b2] setUpdateType_links [OF b1]
    have "links w5 = links (upd w2 np (\<lambda>nd. nd\<lparr>children := children nd @ [n]\<rparr>))" by simp
    then show ?thesis
      using n2 l2 [unfolded Some] unfolding Some relink_def Let_def
      by (simp add: links_upd)
  qed
  have "links w' = links w5"
    unfolding C links_def by (rule map_upd_same) (simp add: updateScaleRotateTransform_def)
  with l5 show ?thesis by simp
qed

lemma reparent_chain:
  "set_parent stdEnv (chainWorld 0 0 0 0) 3 (Some 0) = Some (Inr reparentedChain)"
  by (simp add: set_parent_def setUpdateType.simps chainWorld_def reparentedChain_def treeNode_def
      blankNode_def blankProps_def upd_def node_def ret_def bindR_def Let_def UpdateType_defs
      assertTruthy_def indexOf_def splice1_def updateScaleRotateTransform_def stdEnv_def)

lemma chain_consistent: "treeConsistent (chainWorld u0 u1 u2 u3)"
  by (simp add: treeConsistent_def linksConsistent_def links_def chainWorld_def treeNode_def
      blankNode_def upt_conv_Cons)

lemma reparentedChain_consistent: "treeConsistent reparentedChain"
  by (simp add: treeConsistent_def linksConsistent_def links_def reparentedChain_def treeNode_def
      blankNode_def upt_conv_Cons)

lemma relink_reparented:
  assumes "links w' = relink (links w) n newParent"
    and "treeConsistent w" and "n < length (nodes w)"
    and "\<forall>p. newParent = Some p \<longrightarrow> p < length (nodes w)"
  shows "treeConsistent w' \<and> reparented w w' n newParent"
proof -
  from assms(2) have cons: "linksConsistent (links w)" by (simp add: treeConsistent_def)
  have len: "length (nodes w') = length (nodes w)"
    using assms(1) links_length [of w'] by simp
  have tc: "treeConsistent w'"
    unfolding treeConsistent_def assms(1)
    using relink_consistent [OF cons, of n newParent] assms(3,4) by simp
  have "\<forall>m \<in> set [0 ..< length (nodes w)].
       parent (props (node w' m)) = (if m = n then newParent else parent (props (node w m))) \<and>
       children (node w' m) =
         remove1 n (children (node w m)) @ (if newParent = Some m then [n] else [])"
  proof
    fix m assume "m \<in> set [0 ..< length (nodes w)]"
    then have m: "m < length (nodes w)" by simp
    from relink_nth [OF cons, of n newParent m] assms(3,4) m
    have "relink (links w) n newParent ! m =
          (if m = n then newParent else fst (links w ! m),
           remove1 n (snd (links w ! m)) @ (if newParent = Some m then [n] else []))" by simp
    with assms(1) have "links w' ! m =
          (if m = n then newParent else fst (links w ! m),
           remove1 n (snd (links w ! m)) @ (if newParent = Some m then [n] else []))" by simp
    moreover have "links w' ! m = (parent (props (node w' m)), children (node w' m))"
      using links_nth [of m w'] len m by simp
    moreover have "links w ! m = (parent (props (node w m)), children (node w m))"
      by (rule links_nth [OF m])
    ultimately
    show "parent (props (node w' m)) = (if m = n then newParent else parent (props (node w m))) \<and>
       children (node w' m) =
         remove1 n (children (node w m)) @ (if newParent = Some m then [n] else [])"
      by (auto split: if_splits)
  qed
  with len tc show ?thesis by (simp add: reparented_def)
qed

lemma set_parent_assert:
  assumes "parent (props (node w n)) = Some op" and "n \<notin> set (children (node w op))"
  shows "Some op \<noteq> newParent \<longrightarrow>
           set_parent E w n newParent = Some (Inl (AssertionFailed notFoundMessage))"
    and "set_parent_v1 w n newParent = Some (Inl (AssertionFailed notFoundMessage))"
proof -
  let ?w1 = "upd w n (\<lambda>nd. nd\<lparr>props := (props nd)\<lparr>parent := newParent\<rparr>\<rparr>)"
  have "children (node ?w1 op) = children (node w op)"
    by (rule node_upd_field) simp
  with assms(2) have ix: "indexOf (children (node ?w1 op)) n = - 1"
    by (simp add: indexOf_def findIndex_notin)
  from ix assms(1)
  show "Some op \<noteq> newParent \<longrightarrow>
           set_parent E w n newParent = Some (Inl (AssertionFailed notFoundMessage))"
    by (simp add: set_parent_def Let_def bindR_def assertTruthy_def throw_def)
  from ix assms(1)
  show "set_parent_v1 w n newParent = Some (Inl (AssertionFailed notFoundMessage))"
    by (simp add: set_parent_v1_def Let_def bindR_def assertTruthy_def throw_def)
qed

lemma set_parent_returns:
  assumes "treeConsistent w" and "n < length (nodes w)"
    and "\<forall>p. newParent = Some p \<longrightarrow> p < length (nodes w)"
    and "parentRanked rk (withParent w n newParent)"
  shows "\<exists>w'. set_parent E w n newParent = Some (Inr w')"
proof (cases "parent (props (node w n)) = newParent")
  case True
  then show ?thesis by (simp add: set_parent_same)
next
  case False
  let ?w1 = "upd w n (\<lambda>nd. nd\<lparr>props := (props nd)\<lparr>parent := newParent\<rparr>\<rparr>)"
  let ?A = "(case parent (props (node w n)) of
                None \<Rightarrow> ret ?w1
              | Some op \<Rightarrow>
                 let index = indexOf (children (node ?w1 op)) n in
                 bindR (assertTruthy (index \<noteq> -1) notFoundMessage) (\<lambda>_.
                 setUpdateType
                   (upd ?w1 op (\<lambda>nd. nd\<lparr>children := splice1 (children nd) (nat index)\<rparr>))
                   op (Children OR ZIndexSortedChildren)))"
  from assms(1) have cons: "linksConsistent (links w)" by (simp add: treeConsistent_def)
  from assms(4) have pr1: "parentRanked rk ?w1" by (simp add: withParent_def)
  have "\<exists>w2. ?A = Some (Inr w2) \<and> map props (nodes w2) = map props (nodes ?w1)"
  proof (cases "parent (props (node w n))")
    case None
    then show ?thesis by simp
  next
    case (Some op)
    with assms(2) have f: "fst (links w ! n) = Some op" by (simp add: links_nth)
    from linksConsistent_parent [OF cons _ f] assms(2)
    have opl: "op < length (nodes w)" and mem: "n \<in> set (snd (links w ! op))" by simp_all
    from mem opl have "n \<in> set (children (node w op))" by (simp add: links_nth)
    moreover have "children (node ?w1 op) = children (node w op)"
      by (rule node_upd_field) simp
    ultimately have m1: "n \<in> set (children (node ?w1 op))" by simp
    from indexOf_splice1 [OF m1] have ix: "indexOf (children (node ?w1 op)) n \<noteq> - 1" by simp
    let ?ws = "upd ?w1 op (\<lambda>nd. nd\<lparr>children := splice1 (children nd)
                  (nat (indexOf (children (node ?w1 op)) n))\<rparr>)"
    have prs: "parentRanked rk ?ws" by (rule parentRanked_upd [OF _ pr1]) simp
    have ms: "map props (nodes ?ws) = map props (nodes ?w1)"
      by (rule map_upd_same) simp
    from setUpdateType_returns [OF prs, of op "Children OR ZIndexSortedChildren"] opl
    obtain w2 where s: "setUpdateType ?ws op (Children OR ZIndexSortedChildren) = Some (Inr w2)"
      by auto
    from setUpdateType_frame [OF s, of props] ms
    have "map props (nodes w2) = map props (nodes ?w1)" by simp
    with s ix Some show ?thesis by (simp add: Let_def bindR_def assertTruthy_def ret_def)
  qed
  then obtain w2 where A: "?A = Some (Inr w2)"
    and m2: "map props (nodes w2) = map props (nodes ?w1)" by blast
  from m2 pr1 have pr2: "parentRanked rk w2" by (rule parentRanked_cong)
  from m2 have "length (map props (nodes w2)) = length (map props (nodes ?w1))" by simp
  then have l2: "length (nodes w2) = length (nodes w)" by simp
  let ?B = "(case newParent of
                None \<Rightarrow> ret w2
              | Some np \<Rightarrow>
                 bindR (setUpdateType
                          (upd w2 np (\<lambda>nd. nd\<lparr>children := children nd @ [n]\<rparr>)) n All) (\<lambda>w3.
                 bindR (setUpdateType w3 np (Children OR ZIndexSortedChildren)) (\<lambda>w4.
                 if rtt (props (node w4 np)) \<or> parentHasRenderTexture (node w4 np)
                 then setRTTUpdates w4 n All
                 else ret w4)))"
  have "\<exists>w5. ?B = Some (Inr w5)"
  proof (cases newParent)
    case None
    then show ?thesis by simp
  next
    case (Some np)
    with assms(3) l2 have npl: "np < length (nodes w2)" by simp
    let ?wp = "upd w2 np (\<lambda>nd. nd\<lparr>children := children nd @ [n]\<rparr>)"
    have prp: "parentRanked rk ?wp" by (rule parentRanked_upd [OF _ pr2]) simp
    from setUpdateType_returns [OF prp, of n All] assms(2) l2
    obtain w3 where b1: "setUpdateType ?wp n All = Some (Inr w3)" by auto
    from setUpdateType_frame [OF b1, of props]
    have m3: "map props (nodes w3) = map props (nodes ?wp)" by simp
    from m3 prp have pr3: "parentRanked rk w3" by (rule parentRanked_cong)
    from m3 have "length (map props (nodes w3)) = length (map props (nodes ?wp))" by simp
    then have l3: "length (nodes w3) = length (nodes w)" using l2 by simp
    from setUpdateType_returns [OF pr3, of np "Children OR ZIndexSortedChildren"] npl l2 l3
    obtain w4 where b2: "setUpdateType w3 np (Children OR ZIndexSortedChildren) = Some (Inr w4)"
      by auto
    from setUpdateType_frame [OF b2, of props]
    have m4: "map props (nodes w4) = map props (nodes w3)" by simp
    from m4 pr3 have pr4: "parentRanked rk w4" by (rule parentRanked_cong)
    from m4 have "length (map props (nodes w4)) = length (map props (nodes w3))" by simp
    then have l4: "length (nodes w4) = length (nodes w)" using l3 by simp
    from setRTTUpdates_returns [OF pr4, of n All] assms(2) l4
    obtain w5 where "setRTTUpdates w4 n All = Some (Inr w5)" by auto
    then have "\<exists>w5. (if rtt (props (node w4 np)) \<or> parentHasRenderTexture (node w4 np)
                 then setRTTUpdates w4 n All else ret w4) = Some (Inr w5)" by simp
    with b1 b2 Some show ?thesis by (auto simp: bindR_def)
  qed
  then obtain w5 where B: "?B = Some (Inr w5)" by blast
  from False A B
  have "set_parent E w n newParent = Some (Inr (upd w5 n (updateScaleRotateTransform E)))"
    by (simp add: set_parent_def Let_def bindR_def ret_def)
  then show ?thesis by blast
qed

text \<open>
  For completed calls: from a consistent tree, with live references, every completed
  assignment through the \<open>parent\<close> setter leaves a consistent tree with the node moved;
  the earlier setter of \<open>src/core/CoreNode.ts\<close> always completes on such a tree; where
  the node is missing from its old parent's list, both setters stop with the assertion
  failure.
\<close>

lemma parent_setter_completed:
  "(treeConsistent w \<and> n < length (nodes w) \<and>
      (\<forall>p. newParent = Some p \<longrightarrow> p < length (nodes w)) \<longrightarrow>
      (\<forall>w'. set_parent E w n newParent = Some (Inr w') \<longrightarrow>
          treeConsistent w' \<and>
          (if parent (props (node w n)) = newParent then w' = w
           else reparented w w' n newParent)) \<and>
      (\<exists>w'. set_parent_v1 w n newParent = Some (Inr w') \<and>
          treeConsistent w' \<and> reparented w w' n newParent)) \<and>
   (parent (props (node w n)) = Some op \<and> n \<notin> set (children (node w op)) \<longrightarrow>
      (Some op \<noteq> newParent \<longrightarrow>
         set_parent E w n newParent = Some (Inl (AssertionFailed notFoundMessage))) \<and>
      set_parent_v1 w n newParent = Some (Inl (AssertionFailed notFoundMessage)))"
proof (intro conjI impI allI)
  fix w'
  assume a: "treeConsistent w \<and> n < length (nodes w) \<and>
      (\<forall>p. newParent = Some p \<longrightarrow> p < length (nodes w))"
    and s: "set_parent E w n newParent = Some (Inr w')"
  show "treeConsistent w'"
  proof (cases "parent (props (node w n)) = newParent")
    case True
    with s set_parent_same [OF True, of E] a show ?thesis by simp
  next
    case False
    from set_parent_links [OF s False] a have "links w' = relink (links w) n newParent" by simp
    from relink_reparented [OF this] a show ?thesis by simp
  qed
  show "if parent (props (node w n)) = newParent then w' = w else reparented w w' n newParent"
  proof (cases "parent (props (node w n)) = newParent")
    case True
    with s set_parent_same [OF True, of E] show ?thesis by simp
  next
    case False
    from set_parent_links [OF s False] a have "links w' = relink (links w) n newParent" by simp
    from relink_reparented [OF this] a False show ?thesis by simp
  qed
next
  assume a: "treeConsistent w \<and> n < length (nodes w) \<and>
      (\<forall>p. newParent = Some p \<longrightarrow> p < length (nodes w))"
  from set_parent_v1_links [of w n newParent] a obtain w' where
    s: "set_parent_v1 w n newParent = Some (Inr w')"
    and l: "links w' = relink (links w) n newParent" by blast
  from relink_reparented [OF l] a s
  show "\<exists>w'. set_parent_v1 w n newParent = Some (Inr w') \<and>
          treeConsistent w' \<and> reparented w w' n newParent" by blast
next
  assume "parent (props (node w n)) = Some op \<and> n \<notin> set (children (node w op))"
    and "Some op \<noteq> newParent"
  with set_parent_assert(1) [of w n op newParent E]
  show "set_parent E w n newParent = Some (Inl (AssertionFailed notFoundMessage))" by simp
next
  assume "parent (props (node w n)) = Some op \<and> n \<notin> set (children (node w op))"
  with set_parent_assert(2) [of w n op newParent]
  show "set_parent_v1 w n newParent = Some (Inl (AssertionFailed notFoundMessage))" by simp
qed

text \<open>
  C9. From a consistent tree, with live references, an assignment through the \<open>parent\<close>
  setter that creates no cycle (the parent references after the assignment are
  well-founded) returns, and it returns a consistent tree in which, within that one call,
  the node has left the children list of its old parent and has been appended to the one
  of its new parent (the later setter does nothing at all when the parent is unchanged).
  Every completed call, with or without that condition, leaves a consistent tree with the
  node moved. The earlier setter of \<open>src/core/CoreNode.ts\<close> always returns on a
  consistent tree, with the same result on the links. Where the node is missing from its
  old parent's list, both setters stop with the assertion failure instead of going on.
\<close>

theorem parent_setter_tree_consistent:
  "(treeConsistent w \<and> n < length (nodes w) \<and>
      (\<forall>p. newParent = Some p \<longrightarrow> p < length (nodes w)) \<longrightarrow>
      (parentRanked rk (withParent w n newParent) \<longrightarrow>
         (\<exists>w'. set_parent E w n newParent = Some (Inr w') \<and>
             treeConsistent w' \<and>
             (if parent (props (node w n)) = newParent then w' = w
              else reparented w w' n newParent))) \<and>
      (\<forall>w'. set_parent E w n newParent = Some (Inr w') \<longrightarrow>
          treeConsistent w' \<and>
          (if parent (props (node w n)) = newParent then w' = w
           else reparented w w' n newParent)) \<and>
      (\<exists>w'. set_parent_v1 w n newParent = Some (Inr w') \<and>
          treeConsistent w' \<and> reparented w w' n newParent)) \<and>
   (parent (props (node w n)) = Some op \<and> n \<notin> set (children (node w op)) \<longrightarrow>
      (Some op \<noteq> newParent \<longrightarrow>
         set_parent E w n newParent = Some (Inl (AssertionFailed notFoundMessage))) \<and>
      set_parent_v1 w n newParent = Some (Inl (AssertionFailed notFoundMessage)))"
proof -
  note c = parent_setter_completed [of w n newParent E op]
  have "\<exists>w'. set_parent E w n newParent = Some (Inr w') \<and>
             treeConsistent w' \<and>
             (if parent (props (node w n)) = newParent then w' = w
              else reparented w w' n newParent)"
    if h: "treeConsistent w \<and> n < length (nodes w) \<and>
      (\<forall>p. newParent = Some p \<longrightarrow> p < length (nodes w))"
      and r: "parentRanked rk (withParent w n newParent)"
  proof -
    from h r obtain w' where s: "set_parent E w n newParent = Some (Inr w')"
      using set_parent_returns [of w n newParent rk E] by blast
    from c h s have "treeConsistent w' \<and>
             (if parent (props (node w n)) = newParent then w' = w
              else reparented w w' n newParent)" by blast
    with s show ?thesis by blast
  qed
  with c show ?thesis by blast
qed

lemma reparent_chain_v1:
  "set_parent_v1 (chainWorld 0 0 0 0) 3 (Some 0) = Some (Inr reparentedChain_v1)"
  by (simp add: set_parent_v1_def chainWorld_def reparentedChain_v1_def treeNode_def
      blankNode_def blankProps_def upd_def node_def ret_def bindR_def Let_def
      assertTruthy_def indexOf_def splice1_def)

lemma reparent_chain_ranked: "parentRanked (\<lambda>k. k) (withParent (chainWorld 0 0 0 0) 3 (Some 0))"
  by (simp add: parentRanked_def withParent_def chainWorld_def treeNode_def blankNode_def
      upd_def node_def less_Suc_eq numeral_nat)

theorem parent_setter_tree_consistent_witness:
  "set_parent stdEnv (chainWorld 0 0 0 0) 3 (Some 0) = Some (Inr reparentedChain) \<and>
   treeConsistent reparentedChain \<and> reparented (chainWorld 0 0 0 0) reparentedChain 3 (Some 0) \<and>
   treeConsistent reparentedChain_v1 \<and>
   set_parent stdEnv orphanWorld 3 (Some 0) = Some (Inl (AssertionFailed notFoundMessage)) \<and>
   set_parent_v1 orphanWorld 3 (Some 0) = Some (Inl (AssertionFailed notFoundMessage))"
proof -
  have h: "treeConsistent (chainWorld 0 0 0 0) \<and> 3 < length (nodes (chainWorld 0 0 0 0)) \<and>
      (\<forall>p. Some 0 = Some p \<longrightarrow> p < length (nodes (chainWorld 0 0 0 0)))"
    using chain_consistent by (simp add: chainWorld_def)
  have p: "parent (props (node (chainWorld 0 0 0 0) 3)) \<noteq> Some 0"
    by (simp add: chainWorld_def treeNode_def node_def)
  have o: "parent (props (node orphanWorld 3)) = Some 2 \<and>
      3 \<notin> set (children (node orphanWorld 2))"
    by (simp add: orphanWorld_def treeNode_def blankNode_def node_def)
  from parent_setter_tree_consistent [of "chainWorld 0 0 0 0" 3 "Some 0" "\<lambda>k. k" stdEnv]
    h p reparent_chain_ranked
  have 0: "\<exists>w'. set_parent stdEnv (chainWorld 0 0 0 0) 3 (Some 0) = Some (Inr w') \<and>
             treeConsistent w' \<and> reparented (chainWorld 0 0 0 0) w' 3 (Some 0)"
    and 2: "\<exists>w'. set_parent_v1 (chainWorld 0 0 0 0) 3 (Some 0) = Some (Inr w') \<and> treeConsistent w'"
    by auto
  from 0 reparent_chain
  have 1: "treeConsistent reparentedChain \<and> reparented (chainWorld 0 0 0 0) reparentedChain 3 (Some 0)"
    by simp
  from 2 reparent_chain_v1 have 2: "treeConsistent reparentedChain_v1" by simp
  from parent_setter_tree_consistent [of orphanWorld 3 "Some 0" "\<lambda>k. k" stdEnv 2] o
  have 3: "set_parent stdEnv orphanWorld 3 (Some 0) = Some (Inl (AssertionFailed notFoundMessage))"
    and 4: "set_parent_v1 orphanWorld 3 (Some 0) = Some (Inl (AssertionFailed notFoundMessage))"
    by auto
  from 1 2 3 4 reparent_chain show ?thesis by simp
qed

text \<open>
  C10. Assigning the parent a node already has returns at once with the whole store
  unchanged: children lists, pending masks and every other field of every node. So the
  setter is idempotent: on a consistent tree, repeating a completed assignment changes
  nothing.
\<close>

theorem set_parent_noop:
  "(parent (props (node w n)) = p \<longrightarrow> set_parent E w n p = Some (Inr w)) \<and>
   (treeConsistent w \<and> n < length (nodes w) \<and> (\<forall>q. p = Some q \<longrightarrow> q < length (nodes w)) \<and>
    set_parent E w n p = Some (Inr w') \<longrightarrow> set_parent E w' n p = Some (Inr w'))"
proof (intro conjI impI)
  assume "parent (props (node w n)) = p"
  then show "set_parent E w n p = Some (Inr w)" by (rule set_parent_same)
next
  assume a: "treeConsistent w \<and> n < length (nodes w) \<and>
    (\<forall>q. p = Some q \<longrightarrow> q < length (nodes w)) \<and> set_parent E w n p = Some (Inr w')"
  show "set_parent E w' n p = Some (Inr w')"
  proof (cases "parent (props (node w n)) = p")
    case True
    from set_parent_same [OF True, of E] a have "w' = w" by simp
    with True show ?thesis by (simp add: set_parent_same)
  next
    case False
    from a have s: "set_parent E w n p = Some (Inr w')" by simp
    from set_parent_links [OF s False] a have "links w' = relink (links w) n p" by simp
    from relink_reparented [OF this] a have "reparented w w' n p" by simp
    with a have "parent (props (node w' n)) = p" by (simp add: reparented_def)
    then show ?thesis by (rule set_parent_same)
  qed
qed

theorem set_parent_noop_witness:
  "set_parent stdEnv (chainWorld 0 0 0 0) 3 (Some 2) = Some (Inr (chainWorld 0 0 0 0)) \<and>
   set_parent stdEnv reparentedChain 3 (Some 0) = Some (Inr reparentedChain)"
proof -
  have p: "parent (props (node (chainWorld 0 0 0 0) 3)) = Some 2"
    by (simp add: chainWorld_def treeNode_def node_def)
  have h: "treeConsistent (chainWorld 0 0 0 0) \<and> 3 < length (nodes (chainWorld 0 0 0 0)) \<and>
      (\<forall>q. Some 0 = Some q \<longrightarrow> q < length (nodes (chainWorld 0 0 0 0))) \<and>
      set_parent stdEnv (chainWorld 0 0 0 0) 3 (Some 0) = Some (Inr reparentedChain)"
    using chain_consistent reparent_chain by (simp add: chainWorld_def)
  from set_parent_noop [of "chainWorld 0 0 0 0" 3 "Some 2" stdEnv] p
  have "set_parent stdEnv (chainWorld 0 0 0 0) 3 (Some 2) = Some (Inr (chainWorld 0 0 0 0))"
    by simp
  moreover from set_parent_noop [of "chainWorld 0 0 0 0" 3 "Some 0" stdEnv reparentedChain] h
  have "set_parent stdEnv reparentedChain 3 (Some 0) = Some (Inr reparentedChain)" by blast
  ultimately show ?thesis by simp
qed

section \<open>The render bound: \<open>updateBoundingRect\<close>\<close>

text \<open>The two paths of \<open>updateBoundingRect\<close>: the two opposite corners when \<open>tb\<close> or
  \<open>tc\<close> is zero, the minimum and maximum over the four corners when both are nonzero.\<close>

lemma updateBoundingRect_cases:
  assumes "globalTransform nd = Some t" and "renderCoords nd = Some rc"
  shows "updateBoundingRect nd =
           Inr (nd\<lparr>renderBound := Some (if tb t = 0 \<or> tc t = 0
                                         then createBound (x1 rc) (y1 rc) (x3 rc) (y3 rc)
                                         else minMaxBound rc)\<rparr>)"
  using assms
  by (simp add: updateBoundingRect_def minMaxBound_def min.assoc max.assoc)

text \<open>
  C5 fails in the code. The node \<open>shearedNode\<close> has a global transform with \<open>tb = 0\<close> and
  \<open>tc = -1\<close>, so it is rotated in the sense of the claim, and \<open>calculateRenderCoords\<close>
  takes its four-corner path: the corners are (0, 0), (100, -100), (100, 0) and (0, 100).
  \<open>updateBoundingRect\<close> tests \<open>tb === 0 || tc === 0\<close> and builds the bound from the
  corners 1 and 3: (0, 0, 100, 0), a bound of height zero. The minimum and maximum over the
  four corners is (0, -100, 100, 100).
\<close>

theorem updateBoundingRect_sheared:
  "renderBoundOf shearedNode =
     Inr (Some \<lparr> x1 = 0, y1 = 0, x2 = 100, y2 = - 100, x3 = 100, y3 = 0, x4 = 0, y4 = 100 \<rparr>,
          Some \<lparr> b_x1 = 0, b_y1 = 0, b_x2 = 100, b_y2 = 0 \<rparr>) \<and>
   minMaxBound \<lparr> x1 = 0, y1 = 0, x2 = 100, y2 = - 100, x3 = 100, y3 = 0, x4 = 0, y4 = 100 \<rparr> =
     \<lparr> b_x1 = 0, b_y1 = - 100, b_x2 = 100, b_y2 = 100 \<rparr>"
  by (simp add: renderBoundOf_def calculateRenderCoords_def updateBoundingRect_def shearedNode_def
      blankNode_def blankProps_def Let_def RenderCoords_translate_def createBound_def
      minMaxBound_def)

section \<open>The \<open>rtt\<close> setter\<close>

text \<open>
  C8 fails in the code. In \<open>rttWorld\<close> node 0 is a render-to-texture node with the child 1
  and the grandchild 2, both with \<open>parentHasRenderTexture\<close> set, as the ancestor walk of
  \<open>update\<close> sets it. \<open>rtt = false\<close> on node 0 unloads the texture, marks node 0 with
  \<open>UpdateType.All\<close>, clears the flag of the child and deregisters the node, and leaves the
  flag of the grandchild set: the setter visits \<open>this.children\<close> only.
\<close>

theorem set_rtt_grandchild:
  "set_rtt stdEnv rttWorld 0 False = Some (Inr rttWorldOff) \<and>
   isAncestorChain rttWorld 2 [1, 0] \<and>
   parentHasRenderTexture (node rttWorldOff 2)"
  by (simp add: set_rtt_def setUpdateType.simps rttWorld_def rttWorldOff_def blankNode_def
      blankProps_def upd_def node_def ret_def bindR_def Let_def UpdateType_defs
      unloadTexture_def addCall_def stdEnv_def)

section \<open>The update pass: what a call leaves unchanged\<close>

text \<open>Each block of \<open>update\<close> on node \<open>n\<close> writes cached fields of \<open>n\<close> only, and
  dirty flags of other nodes; a completed \<open>update\<close> on \<open>n\<close> changes, apart from the flags,
  only nodes of rank at least that of \<open>n\<close>.\<close>

lemma eqExcept_refl [simp]: "eqExcept S f w w"
  by (simp add: eqExcept_def)




lemma eqExcept_addCall [simp]: "eqExcept S f w (addCall w c)"
  by (simp add: eqExcept_def addCall_def node_def)


lemma eqExcept_setRTTUpdates:
  assumes "setRTTUpdates w m t = Some (Inr w')" and "flaginv f"
  shows "eqExcept S f w w'"
proof -
  from assms(2) have "map f (nodes w') = map f (nodes w)"
    using setRTTUpdates_frame [OF assms(1), of f] by (simp add: flaginv_def)
  then have m: "map f (nodes w') = map f (nodes w)" .
  from m have "length (map f (nodes w')) = length (map f (nodes w))" by simp
  then have "length (nodes w') = length (nodes w)" by simp
  moreover have "\<And>k. k < length (nodes w) \<Longrightarrow> f (node w' k) = f (node w k)"
    using m by (rule node_map)
  ultimately show ?thesis by (simp add: eqExcept_def)
qed




































lemma bindR_pair_Inr:
  "bindR m (\<lambda>(a, b). k a b) = Some (Inr v) \<longleftrightarrow>
     (\<exists>a b. m = Some (Inr (a, b)) \<and> k a b = Some (Inr v))"
  by (auto simp: bindR_def split: option.splits sum.splits)















lemma maskLe_refl [simp]: "maskLe w w"
  by (simp add: maskLe_def)




















section \<open>The update pass returns\<close>






























lemma maskLe_addCall [simp]: "maskLe w (addCall w c)"
  by (simp add: maskLe_def addCall_def node_def)














section \<open>The example scene\<close>






section \<open>The global transform\<close>



section \<open>Idempotence of \<open>update\<close>\<close>



end
